theory Spec2Isabelle
  imports Complex_Main
begin

section \<open>Data model (types.ts)\<close>

text \<open>
  The sources hold several revisions of the application. The one modelled here is the
  current one, whose parts fit together: \<open>App\<close> of \<open>src/App.tsx\<close>, the \<open>CanvasArea\<close>
  it renders (the component with the props \<open>selectedIds\<close>, \<open>onSnapshot\<close>, \<open>keyMap\<close>
  and \<open>padding\<close>, at lines 81 to 947 of \<open>src/components/Toolbar.tsx\<close>), the geometry
  helpers of \<open>src/unnamed/part_002\<close>, the types at lines 82 to 161 of
  \<open>src/unnamed/part_004\<close>, and \<open>src/utils/keyboard.ts\<close> and \<open>src/constants.ts\<close>.

  JavaScript numbers are modelled as the real numbers: rounding, infinities and NaN are
  outside the model. A statement below that depends on the value of a quotient carries
  the hypothesis that the divisor is not zero.

  The fields \<open>x\<close> and \<open>y\<close> of a \<open>Point\<close> are \<open>px\<close> and \<open>py\<close>, those of a
  \<open>ViewTransform\<close> are \<open>tx\<close> and \<open>ty\<close>; the field \<open>id\<close> of an \<open>Annotation\<close> is
  \<open>ann_id\<close> and its field \<open>type\<close> is \<open>shape_type\<close>. Strings are byte lists; the
  Chinese action labels of the history are written as their UTF-8 bytes.
\<close>

record Point =
  px :: real
  py :: real

datatype ShapeType = rectangle | polygon

record Annotation =
  ann_id :: string
  label :: string
  shape_type :: ShapeType
  points :: "Point list"
  color :: string
  visible :: bool
  locked :: bool

datatype ToolType = select | pan | rectangle_tool | polygon_tool

record ImageSize =
  img_width :: real
  img_height :: real

record ViewTransform =
  scale :: real
  tx :: real
  ty :: real

record KeyBinding =
  kb_key :: string
  kb_ctrlKey :: "bool option"
  kb_shiftKey :: "bool option"
  kb_altKey :: "bool option"

datatype ActionId =
    TOOL_SELECT | TOOL_PAN | TOOL_RECTANGLE | TOOL_POLYGON
  | ZOOM_IN | ZOOM_OUT | RESET_VIEW | UNDO | REDO | DELETE | CANCEL | BACKSPACE_POINT
  | NUDGE_LEFT | NUDGE_RIGHT | NUDGE_UP | NUDGE_DOWN

text \<open>A key map read back from local storage may lack a binding: \<open>None\<close>.\<close>

type_synonym KeyMap = "ActionId \<Rightarrow> KeyBinding option"

section \<open>Geometry primitives and coordinate mapper (utils/geometry.ts)\<close>

text \<open>\<open>Math.pow(v, 2)\<close> is \<open>v ^ 2\<close> and \<open>Math.sqrt\<close> is \<open>sqrt\<close>.\<close>

definition screenToImage :: "real \<Rightarrow> real \<Rightarrow> ViewTransform \<Rightarrow> Point" where
  "screenToImage sx sy tr =
     \<lparr>px = (sx - tx tr) / scale tr,
      py = (sy - ty tr) / scale tr\<rparr>"

definition imageToScreen :: "real \<Rightarrow> real \<Rightarrow> ViewTransform \<Rightarrow> Point" where
  "imageToScreen ix iy tr =
     \<lparr>px = ix * scale tr + tx tr,
      py = iy * scale tr + ty tr\<rparr>"

definition getDistance :: "Point \<Rightarrow> Point \<Rightarrow> real" where
  "getDistance p1 p2 = sqrt ((px p2 - px p1) ^ 2 + (py p2 - py p1) ^ 2)"

definition isPointNearVertex :: "Point \<Rightarrow> Point \<Rightarrow> real \<Rightarrow> real \<Rightarrow> bool" where
  "isPointNearVertex point vertex threshold sc =
     (let screenDist = getDistance \<lparr>px = px point * sc, py = py point * sc\<rparr>
                                   \<lparr>px = px vertex * sc, py = py vertex * sc\<rparr>
      in screenDist < threshold)"

definition getDistanceToSegment :: "Point \<Rightarrow> Point \<Rightarrow> Point \<Rightarrow> real" where
  "getDistanceToSegment p v w =
     (let l2 = (px w - px v) ^ 2 + (py w - py v) ^ 2 in
      if l2 = 0 then getDistance p v
      else (let t0 = ((px p - px v) * (px w - px v) + (py p - py v) * (py w - py v)) / l2;
                t = max 0 (min 1 t0);
                projection = \<lparr>px = px v + t * (px w - px v), py = py v + t * (py w - py v)\<rparr>
            in getDistance p projection))"

text \<open>
  The shoelace loop of \<open>calculatePolygonArea\<close>: for \<open>i\<close> from \<open>0\<close> to \<open>n - 1\<close>, with
  \<open>j = (i + 1) % n\<close>, add \<open>points[i].x * points[j].y\<close> and subtract
  \<open>points[j].x * points[i].y\<close>.
\<close>

definition shoelace_step :: "Point list \<Rightarrow> nat \<Rightarrow> real \<Rightarrow> real" where
  "shoelace_step pts i area =
     (let j = (i + 1) mod length pts
      in area + px (pts ! i) * py (pts ! j) - px (pts ! j) * py (pts ! i))"

definition calculatePolygonArea :: "Point list \<Rightarrow> real" where
  "calculatePolygonArea pts =
     (let n = length pts;
          area = fold (shoelace_step pts) [0..<n] 0
      in \<bar>area\<bar> / 2)"

text \<open>The summand that step \<open>i\<close> of the loop adds to \<open>area\<close>.\<close>

definition shoelace_term :: "Point list \<Rightarrow> nat \<Rightarrow> real" where
  "shoelace_term pts i =
     px (pts ! i) * py (pts ! ((i + 1) mod length pts))
     - px (pts ! ((i + 1) mod length pts)) * py (pts ! i)"

text \<open>
  \<open>Math.min(...xs)\<close> and \<open>Math.max(...xs)\<close>. With no argument JavaScript returns
  \<open>Infinity\<close> and \<open>-Infinity\<close>, which the reals do not have: the two functions are
  left unspecified on the empty list, and no statement below uses them there.
\<close>

fun Math_min :: "real list \<Rightarrow> real" where
  "Math_min (v # vs) = fold min vs v"

fun Math_max :: "real list \<Rightarrow> real" where
  "Math_max (v # vs) = fold max vs v"

record BoundingBox =
  minX :: real
  maxX :: real
  minY :: real
  maxY :: real
  width :: real
  height :: real
  centerX :: real
  centerY :: real

definition getPointsBounds :: "Point list \<Rightarrow> BoundingBox" where
  "getPointsBounds pts =
     (let xs = map px pts;
          ys = map py pts;
          minX = Math_min xs;
          maxX = Math_max xs;
          minY = Math_min ys;
          maxY = Math_max ys
      in \<lparr>minX = minX, maxX = maxX, minY = minY, maxY = maxY,
          width = maxX - minX, height = maxY - minY,
          centerX = (minX + maxX) / 2, centerY = (minY + maxY) / 2\<rparr>)"

definition getAnnotationBounds :: "Annotation \<Rightarrow> BoundingBox" where
  "getAnnotationBounds ann = getPointsBounds (points ann)"

definition moveAnnotation :: "Annotation \<Rightarrow> real \<Rightarrow> real \<Rightarrow> Annotation" where
  "moveAnnotation ann dx dy =
     ann\<lparr>points := map (\<lambda>p. \<lparr>px = px p + dx, py = py p + dy\<rparr>) (points ann)\<rparr>"

section \<open>Keyboard shortcuts (utils/keyboard.ts)\<close>

record KeyboardEvent =
  k_key :: string
  k_code :: string
  k_ctrlKey :: bool
  k_metaKey :: bool
  k_shiftKey :: bool
  k_altKey :: bool
  k_repeat :: bool
  target_is_input :: bool

text \<open>
  \<open>toLowerCase\<close> on the letters \<open>A\<close> to \<open>Z\<close>; every other byte is kept. This is
  JavaScript's function on ASCII strings, which all key names of the default key map are.
\<close>

definition lower_char :: "char \<Rightarrow> char" where
  "lower_char c =
     (let n = (of_char c :: nat)
      in if 65 \<le> n \<and> n \<le> 90 then char_of (n + 32) else c)"

definition toLowerCase :: "string \<Rightarrow> string" where
  "toLowerCase str = map lower_char str"

definition isShortcutPressed :: "KeyboardEvent \<Rightarrow> KeyBinding option \<Rightarrow> bool" where
  "isShortcutPressed e binding =
     (case binding of
        None \<Rightarrow> False
      | Some b \<Rightarrow>
          (let keyMatch = (toLowerCase (k_key e) = toLowerCase (kb_key b) \<or> k_code e = kb_key b);
               ctrlMatch = ((kb_ctrlKey b = Some True) = (k_ctrlKey e \<or> k_metaKey e));
               shiftMatch = ((kb_shiftKey b = Some True) = k_shiftKey e);
               altMatch = ((kb_altKey b = Some True) = k_altKey e)
           in keyMatch \<and> ctrlMatch \<and> shiftMatch \<and> altMatch))"

section \<open>Application state (App.tsx and CanvasArea)\<close>

record HistoryItem =
  h_annotations :: "Annotation list"
  action :: string

record History =
  past :: "HistoryItem list"
  future :: "HistoryItem list"

record LabelPopup =
  lp_visible :: bool
  lp_x :: real
  lp_y :: real
  lp_id :: "string option"

record ActiveVertex =
  av_id :: string
  av_index :: nat

record HoveredEdge =
  he_id :: string
  he_index :: nat
  he_point :: Point

text \<open>
  The state of \<open>App\<close> (annotations, selection, tool, transform, padding, history, key
  map, popup, image size) together with the interaction state that \<open>CanvasArea\<close> keeps.
\<close>

record AppState =
  annotations :: "Annotation list"
  selectedIds :: "string list"
  currentTool :: ToolType
  transform :: ViewTransform
  canvasPadding :: Point
  history :: History
  keyMap :: KeyMap
  labelPopup :: LabelPopup
  imageSize :: ImageSize
  isDragging :: bool
  dragStart :: "Point option"
  currentMouseImagePos :: "Point option"
  isHoveringStartPoint :: bool
  hoveredEdge :: "HoveredEdge option"
  hoveredAnnotationId :: "string option"
  tooltipPos :: "Point option"
  pendingPoly :: "Point list"
  pendingRectStart :: "Point option"
  activeVertex :: "ActiveVertex option"
  isSpacePressed :: bool

subsection \<open>Action labels\<close>

definition action_modify :: string where
  \<comment> \<open>U+4FEE U+6539: modify\<close>
  "action_modify =
     [CHR 0xE4, CHR 0xBF, CHR 0xAE, CHR 0xE6, CHR 0x94, CHR 0xB9]"

definition action_delete :: string where
  \<comment> \<open>U+5220 U+9664 U+6807 U+6CE8: delete annotation\<close>
  "action_delete =
     [CHR 0xE5, CHR 0x88, CHR 0xA0, CHR 0xE9, CHR 0x99, CHR 0xA4,
      CHR 0xE6, CHR 0xA0, CHR 0x87, CHR 0xE6, CHR 0xB3, CHR 0xA8]"

definition action_align :: string where
  \<comment> \<open>U+5BF9 U+9F50 U+6807 U+6CE8: align annotations\<close>
  "action_align =
     [CHR 0xE5, CHR 0xAF, CHR 0xB9, CHR 0xE9, CHR 0xBD, CHR 0x90,
      CHR 0xE6, CHR 0xA0, CHR 0x87, CHR 0xE6, CHR 0xB3, CHR 0xA8]"

definition action_nudge :: string where
  \<comment> \<open>U+4F4D U+7F6E U+5FAE U+8C03: nudge\<close>
  "action_nudge =
     [CHR 0xE4, CHR 0xBD, CHR 0x8D, CHR 0xE7, CHR 0xBD, CHR 0xAE,
      CHR 0xE5, CHR 0xBE, CHR 0xAE, CHR 0xE8, CHR 0xB0, CHR 0x83]"

definition action_resize :: string where
  \<comment> \<open>U+8C03 U+6574 U+77E9 U+5F62 U+5927 U+5C0F: resize rectangle\<close>
  "action_resize =
     [CHR 0xE8, CHR 0xB0, CHR 0x83, CHR 0xE6, CHR 0x95, CHR 0xB4,
      CHR 0xE7, CHR 0x9F, CHR 0xA9, CHR 0xE5, CHR 0xBD, CHR 0xA2,
      CHR 0xE5, CHR 0xA4, CHR 0xA7, CHR 0xE5, CHR 0xB0, CHR 0x8F]"

definition action_delete_vertex :: string where
  \<comment> \<open>U+5220 U+9664 U+9876 U+70B9: delete vertex\<close>
  "action_delete_vertex =
     [CHR 0xE5, CHR 0x88, CHR 0xA0, CHR 0xE9, CHR 0x99, CHR 0xA4,
      CHR 0xE9, CHR 0xA1, CHR 0xB6, CHR 0xE7, CHR 0x82, CHR 0xB9]"

definition action_move_vertex :: string where
  \<comment> \<open>U+8C03 U+6574 U+9876 U+70B9: move vertex\<close>
  "action_move_vertex =
     [CHR 0xE8, CHR 0xB0, CHR 0x83, CHR 0xE6, CHR 0x95, CHR 0xB4,
      CHR 0xE9, CHR 0xA1, CHR 0xB6, CHR 0xE7, CHR 0x82, CHR 0xB9]"

definition action_add_vertex :: string where
  \<comment> \<open>U+6DFB U+52A0 U+9876 U+70B9: add vertex\<close>
  "action_add_vertex =
     [CHR 0xE6, CHR 0xB7, CHR 0xBB, CHR 0xE5, CHR 0x8A, CHR 0xA0,
      CHR 0xE9, CHR 0xA1, CHR 0xB6, CHR 0xE7, CHR 0x82, CHR 0xB9]"

definition action_move :: string where
  \<comment> \<open>U+79FB U+52A8 U+6807 U+6CE8: move annotation\<close>
  "action_move =
     [CHR 0xE7, CHR 0xA7, CHR 0xBB, CHR 0xE5, CHR 0x8A, CHR 0xA8,
      CHR 0xE6, CHR 0xA0, CHR 0x87, CHR 0xE6, CHR 0xB3, CHR 0xA8]"

definition action_create_rectangle :: string where
  \<comment> \<open>U+521B U+5EFA U+77E9 U+5F62: create rectangle\<close>
  "action_create_rectangle =
     [CHR 0xE5, CHR 0x88, CHR 0x9B, CHR 0xE5, CHR 0xBB, CHR 0xBA,
      CHR 0xE7, CHR 0x9F, CHR 0xA9, CHR 0xE5, CHR 0xBD, CHR 0xA2]"

definition action_create_polygon :: string where
  \<comment> \<open>U+521B U+5EFA U+591A U+8FB9 U+5F62: create polygon\<close>
  "action_create_polygon =
     [CHR 0xE5, CHR 0x88, CHR 0x9B, CHR 0xE5, CHR 0xBB, CHR 0xBA,
      CHR 0xE5, CHR 0xA4, CHR 0x9A, CHR 0xE8, CHR 0xBE, CHR 0xB9,
      CHR 0xE5, CHR 0xBD, CHR 0xA2]"

definition action_distribute :: string where
  \<comment> \<open>U+5206 U+5E03 U+6807 U+6CE8: distribute annotations\<close>
  "action_distribute =
     [CHR 0xE5, CHR 0x88, CHR 0x86, CHR 0xE5, CHR 0xB8, CHR 0x83,
      CHR 0xE6, CHR 0xA0, CHR 0x87, CHR 0xE6, CHR 0xB3, CHR 0xA8]"

definition action_change_label :: string where
  \<comment> \<open>U+4FEE U+6539 U+7C7B U+578B: change label\<close>
  "action_change_label =
     [CHR 0xE4, CHR 0xBF, CHR 0xAE, CHR 0xE6, CHR 0x94, CHR 0xB9,
      CHR 0xE7, CHR 0xB1, CHR 0xBB, CHR 0xE5, CHR 0x9E, CHR 0x8B]"

definition COLORS :: "string list" where
  "COLORS = [''#ef4444'', ''#f97316'', ''#f59e0b'', ''#84cc16'', ''#10b981'',
             ''#06b6d4'', ''#3b82f6'', ''#8b5cf6'', ''#d946ef'', ''#f43f5e'']"

definition getNextColor :: "AppState \<Rightarrow> string" where
  "getNextColor s = COLORS ! (length (annotations s) mod length COLORS)"

subsection \<open>History (App.tsx)\<close>

text \<open>
  A handler of \<open>App\<close> reads the state of the render it was created in and writes through
  the setters. Each handler therefore takes two states: \<open>c\<close>, the state its closure
  reads, and \<open>s\<close>, the state the setters have produced so far in the running event.
  A setter called with a value overwrites, a setter called with a function updates
  \<open>s\<close>. The first handler of an event runs with \<open>s = c\<close>.
\<close>

definition snapshotHistory :: "string \<Rightarrow> AppState \<Rightarrow> AppState \<Rightarrow> AppState" where
  "snapshotHistory act c s =
     s\<lparr>history :=
         \<lparr>past = past (history s) @ [\<lparr>h_annotations = annotations c, action = act\<rparr>],
          future = []\<rparr>\<rparr>"

definition handleUndo :: "AppState \<Rightarrow> AppState \<Rightarrow> AppState" where
  "handleUndo c s =
     (if length (past (history c)) = 0 then s
      else (let newPast = butlast (past (history c));
                previous = last (past (history c));
                redoAction = (if action previous = [] then action_modify else action previous)
            in s\<lparr>history :=
                   \<lparr>past = newPast,
                    future = \<lparr>h_annotations = annotations c, action = redoAction\<rparr>
                               # future (history c)\<rparr>,
                 annotations := h_annotations previous,
                 selectedIds := []\<rparr>))"

definition handleRedo :: "AppState \<Rightarrow> AppState \<Rightarrow> AppState" where
  "handleRedo c s =
     (if length (future (history c)) = 0 then s
      else (let newFuture = tl (future (history c));
                next = hd (future (history c));
                undoAction = (if action next = [] then action_modify else action next)
            in s\<lparr>history :=
                   \<lparr>past = past (history c)
                             @ [\<lparr>h_annotations = annotations c, action = undoAction\<rparr>],
                    future = newFuture\<rparr>,
                 annotations := h_annotations next,
                 selectedIds := []\<rparr>))"

subsection \<open>Zoom, reset, delete, alignment (App.tsx)\<close>

datatype ZoomDirection = zoom_in | zoom_out

definition handleZoom :: "ZoomDirection \<Rightarrow> ViewTransform \<Rightarrow> ViewTransform" where
  "handleZoom direction prev =
     prev\<lparr>scale := (if direction = zoom_in then scale prev * (12 / 10)
                      else scale prev / (12 / 10))\<rparr>"

record Window =
  innerWidth :: real
  innerHeight :: real

definition handleResetView :: "Window \<Rightarrow> AppState \<Rightarrow> AppState \<Rightarrow> AppState" where
  "handleResetView win c s =
     (if img_width (imageSize c) = 0 then s
      else (let maxWidth = innerWidth win - 384;
                maxHeight = innerHeight win;
                sc = min (maxWidth / img_width (imageSize c))
                         (maxHeight / img_height (imageSize c)) * (9 / 10);
                nx = (maxWidth - img_width (imageSize c) * sc) / 2 - px (canvasPadding c) * sc;
                ny = (maxHeight - img_height (imageSize c) * sc) / 2 - py (canvasPadding c) * sc
            in s\<lparr>transform := \<lparr>scale = sc, tx = nx, ty = ny\<rparr>\<rparr>))"

definition handleDelete :: "string list \<Rightarrow> AppState \<Rightarrow> AppState \<Rightarrow> AppState" where
  "handleDelete ids c s =
     (let s1 = snapshotHistory action_delete c s
      in s1\<lparr>annotations := filter (\<lambda>a. ann_id a \<notin> set ids) (annotations s1),
            selectedIds := []\<rparr>)"

text \<open>
  \<open>selectedIds.some(id => annotations.find(a => a.id === id)?.locked)\<close>, the guard of
  keyboard delete, nudge and shape drag.
\<close>

definition hasLocked :: "string list \<Rightarrow> Annotation list \<Rightarrow> bool" where
  "hasLocked ids anns =
     list_ex (\<lambda>i. case find (\<lambda>a. ann_id a = i) anns of None \<Rightarrow> False | Some a \<Rightarrow> locked a) ids"

datatype AlignType = align_left | align_center | align_right | align_top | align_middle | align_bottom

definition handleAlign :: "AlignType \<Rightarrow> AppState \<Rightarrow> AppState \<Rightarrow> AppState" where
  "handleAlign type c s =
     (let selectedAnns = filter (\<lambda>a. ann_id a \<in> set (selectedIds c)) (annotations c) in
      if length selectedAnns < 2 then s
      else (let s1 = snapshotHistory action_align c s;
                allBounds = map getAnnotationBounds selectedAnns;
                groupMinX = Math_min (map minX allBounds);
                groupMaxX = Math_max (map maxX allBounds);
                groupMinY = Math_min (map minY allBounds);
                groupMaxY = Math_max (map maxY allBounds);
                groupCenterX = (groupMinX + groupMaxX) / 2;
                groupCenterY = (groupMinY + groupMaxY) / 2;
                newAnnotations =
                  map (\<lambda>ann.
                         if ann_id ann \<notin> set (selectedIds c) then ann
                         else (let bounds = getAnnotationBounds ann;
                                   dx = (case type of
                                           align_left \<Rightarrow> groupMinX - minX bounds
                                         | align_right \<Rightarrow> groupMaxX - maxX bounds
                                         | align_center \<Rightarrow> groupCenterX - centerX bounds
                                         | _ \<Rightarrow> 0);
                                   dy = (case type of
                                           align_top \<Rightarrow> groupMinY - minY bounds
                                         | align_bottom \<Rightarrow> groupMaxY - maxY bounds
                                         | align_middle \<Rightarrow> groupCenterY - centerY bounds
                                         | _ \<Rightarrow> 0)
                               in moveAnnotation ann dx dy))
                      (annotations c)
            in s1\<lparr>annotations := newAnnotations\<rparr>))"

definition handleShapeComplete :: "string \<Rightarrow> Point \<Rightarrow> AppState \<Rightarrow> AppState" where
  "handleShapeComplete ident screenPos s =
     s\<lparr>labelPopup := \<lparr>lp_visible = True, lp_x = px screenPos + 64, lp_y = py screenPos,
                       lp_id = Some ident\<rparr>,
       currentTool := select\<rparr>"

text \<open>
  The global keyboard handler of \<open>App\<close>. Its tests are not exclusive: every shortcut
  that matches runs, in the order of the source, all reading the same closure \<open>c\<close>.
\<close>

definition handleKeyDown_App :: "Window \<Rightarrow> KeyboardEvent \<Rightarrow> AppState \<Rightarrow> AppState" where
  "handleKeyDown_App win e c =
     (if target_is_input e then c
      else (let pressed = (\<lambda>a. isShortcutPressed e (keyMap c a));
                s1 = (if pressed TOOL_SELECT then c\<lparr>currentTool := select\<rparr> else c);
                s2 = (if pressed TOOL_PAN then s1\<lparr>currentTool := pan\<rparr> else s1);
                s3 = (if pressed TOOL_RECTANGLE then s2\<lparr>currentTool := rectangle_tool\<rparr> else s2);
                s4 = (if pressed TOOL_POLYGON then s3\<lparr>currentTool := polygon_tool\<rparr> else s3);
                s5 = (if pressed ZOOM_IN
                      then s4\<lparr>transform := handleZoom zoom_in (transform s4)\<rparr> else s4);
                s6 = (if pressed ZOOM_OUT
                      then s5\<lparr>transform := handleZoom zoom_out (transform s5)\<rparr> else s5);
                s7 = (if pressed RESET_VIEW then handleResetView win c s6 else s6);
                s8 = (if pressed UNDO then handleUndo c s7 else s7);
                s9 = (if pressed REDO then handleRedo c s8 else s8)
            in if pressed DELETE \<and> length (selectedIds c) > 0
               then (if \<not> hasLocked (selectedIds c) (annotations c)
                     then handleDelete (selectedIds c) c s9 else s9)
               else s9))"

section \<open>Canvas interaction (CanvasArea)\<close>

text \<open>
  The handlers of \<open>CanvasArea\<close> run once per event, on the state of the current
  render, and reach \<open>App\<close> through their callbacks: \<open>onSnapshot\<close> is
  \<open>snapshotHistory\<close>, \<open>onAnnotationsChange\<close>, \<open>onSelect\<close> and \<open>onTransformChange\<close>
  overwrite \<open>annotations\<close>, \<open>selectedIds\<close> and \<open>transform\<close>, \<open>onShapeComplete\<close> is
  \<open>handleShapeComplete\<close>, and \<open>currentColor\<close> is \<open>getNextColor\<close>.
\<close>

subsection \<open>Wheel zoom\<close>

text \<open>
  A wheel event carries \<open>deltaY\<close> and the client position of the pointer; \<open>DOMRect\<close> is
  the bounding rectangle of the canvas container, of which the handlers read \<open>left\<close> and
  \<open>top\<close>.
\<close>

record WheelEvent =
  deltaY :: real
  w_clientX :: real
  w_clientY :: real

record DOMRect =
  rect_left :: real
  rect_top :: real

definition onWheel :: "DOMRect \<Rightarrow> WheelEvent \<Rightarrow> ViewTransform \<Rightarrow> ViewTransform" where
  "onWheel rect e tr =
     (let zoomIntensity = 1 / 10;
          direction = (if deltaY e < 0 then 1 else - 1);
          factor = 1 + direction * zoomIntensity;
          mouseX = w_clientX e - rect_left rect;
          mouseY = w_clientY e - rect_top rect;
          newScale0 = scale tr * factor;
          newScale = max (1 / 10) (min newScale0 50);
          newX = mouseX - (mouseX - tx tr) * (newScale / scale tr);
          newY = mouseY - (mouseY - ty tr) * (newScale / scale tr)
      in \<lparr>scale = newScale, tx = newX, ty = newY\<rparr>)"

text \<open>A finite sequence of wheel events, handled one after the other.\<close>

fun wheels :: "DOMRect \<Rightarrow> WheelEvent list \<Rightarrow> ViewTransform \<Rightarrow> ViewTransform" where
  "wheels rect [] tr = tr"
| "wheels rect (e # es) tr = wheels rect es (onWheel rect e tr)"

subsection \<open>Keyboard: cancel, undo point, nudge\<close>

text \<open>
  Nudge and shape drag both replace the annotations by
  \<open>annotations.map(ann => selectedIds.includes(ann.id) ? moved : ann)\<close>, where
  \<open>moved\<close> is \<open>ann\<close> with \<open>(dx, dy)\<close> added to every point.
\<close>

definition moveSelected ::
  "string list \<Rightarrow> real \<Rightarrow> real \<Rightarrow> Annotation list \<Rightarrow> Annotation list" where
  "moveSelected ids dx dy anns =
     map (\<lambda>ann. if ann_id ann \<notin> set ids then ann
                 else ann\<lparr>points := map (\<lambda>p. \<lparr>px = px p + dx, py = py p + dy\<rparr>) (points ann)\<rparr>)
         anns"

definition handleCancelDraw :: "AppState \<Rightarrow> AppState" where
  "handleCancelDraw s = s\<lparr>pendingPoly := [], pendingRectStart := None\<rparr>"

definition handleUndoPoint :: "AppState \<Rightarrow> AppState" where
  "handleUndoPoint s = s\<lparr>pendingPoly := butlast (pendingPoly s)\<rparr>"

definition handleKeyDown :: "KeyboardEvent \<Rightarrow> AppState \<Rightarrow> AppState" where
  "handleKeyDown e s =
     (if target_is_input e then s
      else (let pressed = (\<lambda>a. isShortcutPressed e (keyMap s a));
                s1 = (if k_code e = ''Space'' \<and> \<not> k_repeat e
                      then s\<lparr>isSpacePressed := True\<rparr> else s)
            in if length (pendingPoly s) > 0
               then (let s2 = (if pressed CANCEL then handleCancelDraw s1 else s1)
                     in if pressed BACKSPACE_POINT then handleUndoPoint s2 else s2)
               else if pendingRectStart s \<noteq> None
               then (if pressed CANCEL then handleCancelDraw s1 else s1)
               else if length (selectedIds s) > 0 \<and> activeVertex s = None
               then (if hasLocked (selectedIds s) (annotations s) then s1
                     else (let dx0 = (if pressed NUDGE_LEFT then - 1
                                      else if pressed NUDGE_RIGHT then 1 else 0);
                               dy0 = (if pressed NUDGE_LEFT then 0
                                      else if pressed NUDGE_RIGHT then 0
                                      else if pressed NUDGE_UP then - 1
                                      else if pressed NUDGE_DOWN then 1 else 0)
                           in if dx0 \<noteq> 0 \<or> dy0 \<noteq> 0
                              then (let step = (if k_shiftKey e then 10 else 1);
                                        dx = dx0 * step;
                                        dy = dy0 * step;
                                        scaleFactor = 1 / scale (transform s)
                                    in (snapshotHistory action_nudge s s1)
                                         \<lparr>annotations :=
                                            moveSelected (selectedIds s) (dx * scaleFactor)
                                              (dy * scaleFactor) (annotations s)\<rparr>)
                              else s1))
               else s1))"

subsection \<open>Pointer events\<close>

record MouseEvent =
  clientX :: real
  clientY :: real
  button :: nat
  altKey :: bool
  ctrlKey :: bool
  metaKey :: bool
  shiftKey :: bool

text \<open>\<open>containerRef.current\<close> may be null: the rectangle is optional.\<close>

definition getMousePos :: "DOMRect option \<Rightarrow> MouseEvent \<Rightarrow> Point" where
  "getMousePos rect e =
     (case rect of
        None \<Rightarrow> \<lparr>px = 0, py = 0\<rparr>
      | Some r \<Rightarrow> \<lparr>px = clientX e - rect_left r, py = clientY e - rect_top r\<rparr>)"

definition getRelativeImagePos :: "DOMRect option \<Rightarrow> MouseEvent \<Rightarrow> AppState \<Rightarrow> Point" where
  "getRelativeImagePos rect e s =
     (let pos = getMousePos rect e;
          rawPos = screenToImage (px pos) (py pos) (transform s)
      in \<lparr>px = px rawPos - px (canvasPadding s), py = py rawPos - py (canvasPadding s)\<rparr>)"

text \<open>\<open>findIndex\<close>, with \<open>None\<close> for \<open>-1\<close>.\<close>

fun findIndex :: "('a \<Rightarrow> bool) \<Rightarrow> 'a list \<Rightarrow> nat option" where
  "findIndex P [] = None"
| "findIndex P (v # vs) =
     (if P v then Some 0 else (case findIndex P vs of None \<Rightarrow> None | Some i \<Rightarrow> Some (Suc i)))"

text \<open>
  The bounding-box test of a shape body against the pointer, widened by \<open>buffer\<close>.
  A shape without points has the bounds \<open>Infinity\<close> and \<open>-Infinity\<close> in the source,
  so the test fails for it.
\<close>

definition bboxHit :: "Point \<Rightarrow> real \<Rightarrow> Annotation \<Rightarrow> bool" where
  "bboxHit imgPos buffer ann =
     (let xs = map px (points ann);
          ys = map py (points ann)
      in points ann \<noteq> [] \<and>
         px imgPos \<ge> Math_min xs - buffer \<and> px imgPos \<le> Math_max xs + buffer \<and>
         py imgPos \<ge> Math_min ys - buffer \<and> py imgPos \<le> Math_max ys + buffer)"

definition rectCorners :: "Annotation \<Rightarrow> Point list" where
  "rectCorners ann =
     (let x1 = min (px (points ann ! 0)) (px (points ann ! 1));
          y1 = min (py (points ann ! 0)) (py (points ann ! 1));
          x2 = max (px (points ann ! 0)) (px (points ann ! 1));
          y2 = max (py (points ann ! 0)) (py (points ann ! 1))
      in [\<lparr>px = x1, py = y1\<rparr>, \<lparr>px = x2, py = y1\<rparr>, \<lparr>px = x2, py = y2\<rparr>, \<lparr>px = x1, py = y2\<rparr>])"

text \<open>
  A handler that reads a corner of a rectangle with fewer than two points raises a
  \<open>TypeError\<close>, and a write past the end of a points array leaves a hole in it, which a
  list of points cannot hold. Both are the result \<open>None\<close>.

  Part A of the select tool (a click on a handle, a vertex or a hovered edge) either
  returns from the handler or falls through to part B (a click on a shape body).
\<close>

datatype flow = Return "AppState option" | Continue

definition vertexClick :: "Point \<Rightarrow> MouseEvent \<Rightarrow> AppState \<Rightarrow> flow" where
  "vertexClick imgPos e s =
     (if length (selectedIds s) = 1
      then (let selectedId = selectedIds s ! 0 in
            case find (\<lambda>a. ann_id a = selectedId) (annotations s) of
              None \<Rightarrow> Continue
            | Some ann \<Rightarrow>
                if locked ann then Continue
                else (let threshold = 10 / scale (transform s) in
                      case shape_type ann of
                        rectangle \<Rightarrow>
                          if length (points ann) < 2 then Return None
                          else (case findIndex (\<lambda>c. isPointNearVertex c imgPos threshold 1)
                                       (rectCorners ann) of
                                  Some hitIndex \<Rightarrow>
                                    Return (Some ((snapshotHistory action_resize s s)
                                      \<lparr>activeVertex :=
                                         Some \<lparr>av_id = selectedId, av_index = hitIndex\<rparr>\<rparr>))
                                | None \<Rightarrow> Continue)
                      | polygon \<Rightarrow>
                          (case findIndex (\<lambda>p. isPointNearVertex p imgPos threshold 1)
                                  (points ann) of
                             Some clickedVertexIndex \<Rightarrow>
                               if altKey e
                               then (if length (points ann) > 3
                                     then (let newPoints =
                                                 map snd (filter (\<lambda>q. fst q \<noteq> clickedVertexIndex)
                                                            (enumerate 0 (points ann)))
                                           in Return (Some ((snapshotHistory action_delete_vertex s s)
                                                \<lparr>annotations :=
                                                   map (\<lambda>a. if ann_id a = selectedId
                                                             then a\<lparr>points := newPoints\<rparr> else a)
                                                       (annotations s)\<rparr>)))
                                     else Return (Some s))
                               else Return (Some ((snapshotHistory action_move_vertex s s)
                                      \<lparr>activeVertex :=
                                         Some \<lparr>av_id = selectedId,
                                               av_index = clickedVertexIndex\<rparr>\<rparr>))
                           | None \<Rightarrow>
                               (case hoveredEdge s of
                                  None \<Rightarrow> Continue
                                | Some he \<Rightarrow>
                                    if he_id he = selectedId
                                    then (let newPoints =
                                                take (he_index he + 1) (points ann)
                                                @ [he_point he]
                                                @ drop (he_index he + 1) (points ann);
                                              newAnn = ann\<lparr>points := newPoints\<rparr>
                                          in Return (Some ((snapshotHistory action_add_vertex s s)
                                               \<lparr>annotations :=
                                                  map (\<lambda>a. if ann_id a = selectedId
                                                            then newAnn else a)
                                                      (annotations s),
                                                activeVertex :=
                                                  Some \<lparr>av_id = selectedId,
                                                        av_index = he_index he + 1\<rparr>,
                                                hoveredEdge := None\<rparr>)))
                                    else Continue))))
      else Continue)"

definition bodyClick :: "Point \<Rightarrow> MouseEvent \<Rightarrow> AppState \<Rightarrow> AppState" where
  "bodyClick imgPos e s =
     (case find (\<lambda>ann. visible ann \<and> \<not> locked ann
                       \<and> bboxHit imgPos (5 / scale (transform s)) ann)
             (rev (annotations s)) of
        Some ann \<Rightarrow>
          (let s1 = (if ctrlKey e \<or> metaKey e
                     then (if ann_id ann \<in> set (selectedIds s)
                           then s\<lparr>selectedIds := filter (\<lambda>i. i \<noteq> ann_id ann) (selectedIds s)\<rparr>
                           else s\<lparr>selectedIds := selectedIds s @ [ann_id ann]\<rparr>)
                     else (if ann_id ann \<notin> set (selectedIds s)
                           then s\<lparr>selectedIds := [ann_id ann]\<rparr> else s))
           in (snapshotHistory action_move s s1)\<lparr>dragStart := Some imgPos, isDragging := True\<rparr>)
      | None \<Rightarrow> (if \<not> shiftKey e then s\<lparr>selectedIds := []\<rparr> else s))"

text \<open>The polygon tool; \<open>now\<close> is \<open>Date.now().toString()\<close>, the id of a new shape.\<close>

definition polygonClick :: "string \<Rightarrow> Point \<Rightarrow> AppState \<Rightarrow> AppState" where
  "polygonClick now imgPos s =
     (let s1 = (if length (pendingPoly s) = 0
                then snapshotHistory action_create_polygon s s else s)
      in if length (pendingPoly s) \<ge> 3 \<and>
            sqrt ((px imgPos - px (pendingPoly s ! 0)) ^ 2
                  + (py imgPos - py (pendingPoly s ! 0)) ^ 2)
              < 15 / scale (transform s)
         then (let newPoly = \<lparr>ann_id = now, label = ''defect'', shape_type = polygon,
                               points = pendingPoly s, color = getNextColor s,
                               visible = True, locked = False\<rparr>;
                   cx = foldl (\<lambda>sum p. sum + px p) 0 (pendingPoly s)
                          / real (length (pendingPoly s));
                   cy = foldl (\<lambda>sum p. sum + py p) 0 (pendingPoly s)
                          / real (length (pendingPoly s));
                   screenPos = imageToScreen (cx + px (canvasPadding s))
                                 (cy + py (canvasPadding s)) (transform s)
               in handleShapeComplete (ann_id newPoly) screenPos
                    (s1\<lparr>annotations := annotations s @ [newPoly],
                        selectedIds := [ann_id newPoly],
                        pendingPoly := []\<rparr>))
         else s1\<lparr>pendingPoly := pendingPoly s1 @ [imgPos]\<rparr>)"

definition handleMouseDown ::
  "DOMRect option \<Rightarrow> string \<Rightarrow> MouseEvent \<Rightarrow> AppState \<Rightarrow> AppState option" where
  "handleMouseDown rect now e s =
     (let imgPos = getRelativeImagePos rect e s in
      if currentTool s = pan \<or> isSpacePressed s \<or> button e = 1
      then Some (s\<lparr>isDragging := True, dragStart := Some \<lparr>px = clientX e, py = clientY e\<rparr>\<rparr>)
      else if button e \<noteq> 0 then Some s
      else (case currentTool s of
              select \<Rightarrow>
                (case vertexClick imgPos e s of
                   Return r \<Rightarrow> r
                 | Continue \<Rightarrow> Some (bodyClick imgPos e s))
            | rectangle_tool \<Rightarrow>
                Some ((snapshotHistory action_create_rectangle s s)
                        \<lparr>pendingRectStart := Some imgPos\<rparr>)
            | polygon_tool \<Rightarrow> Some (polygonClick now imgPos s)
            | pan \<Rightarrow> Some s))"

text \<open>
  Pointer move. The hover bookkeeping comes first; then exactly one of panning, dragging
  the selected shapes and dragging a vertex or a rectangle handle runs.
\<close>

definition findEdge :: "string \<Rightarrow> Point \<Rightarrow> real \<Rightarrow> Point list \<Rightarrow> HoveredEdge option" where
  "findEdge selectedId imgPos edgeThreshold pts =
     (case find (\<lambda>i. getDistanceToSegment imgPos (pts ! i) (pts ! ((i + 1) mod length pts))
                       < edgeThreshold)
             [0..<length pts] of
        None \<Rightarrow> None
      | Some i \<Rightarrow> Some \<lparr>he_id = selectedId, he_index = i, he_point = imgPos\<rparr>)"

definition hoverUpdate :: "Point \<Rightarrow> Point \<Rightarrow> AppState \<Rightarrow> AppState" where
  "hoverUpdate pos imgPos s =
     (let clampedPos = \<lparr>px = max 0 (min (px imgPos) (img_width (imageSize s))),
                         py = max 0 (min (py imgPos) (img_height (imageSize s)))\<rparr>;
          s1 = s\<lparr>currentMouseImagePos := Some clampedPos\<rparr>;
          s2 = (if currentTool s = polygon_tool \<and> length (pendingPoly s) \<ge> 3
                then s1\<lparr>isHoveringStartPoint :=
                          (sqrt ((px imgPos - px (pendingPoly s ! 0)) ^ 2
                                 + (py imgPos - py (pendingPoly s ! 0)) ^ 2)
                             < 15 / scale (transform s))\<rparr>
                else s1\<lparr>isHoveringStartPoint := False\<rparr>);
          s3 = (if currentTool s = select \<and> length (selectedIds s) = 1
                   \<and> activeVertex s = None \<and> \<not> isDragging s
                then (let selectedId = selectedIds s ! 0 in
                      case find (\<lambda>a. ann_id a = selectedId) (annotations s) of
                        None \<Rightarrow> s2\<lparr>hoveredEdge := None\<rparr>
                      | Some ann \<Rightarrow>
                          if shape_type ann = polygon \<and> \<not> locked ann
                          then s2\<lparr>hoveredEdge :=
                                    findEdge selectedId imgPos (8 / scale (transform s))
                                      (points ann)\<rparr>
                          else s2\<lparr>hoveredEdge := None\<rparr>)
                else s2\<lparr>hoveredEdge := None\<rparr>)
      in if \<not> isDragging s \<and> pendingRectStart s = None \<and> length (pendingPoly s) = 0
         then (case find (\<lambda>ann. visible ann \<and> bboxHit imgPos (5 / scale (transform s)) ann)
                      (rev (annotations s)) of
                 None \<Rightarrow> s3\<lparr>hoveredAnnotationId := None, tooltipPos := None\<rparr>
               | Some ann \<Rightarrow>
                   s3\<lparr>hoveredAnnotationId := Some (ann_id ann),
                      tooltipPos := (if ann_id ann \<noteq> [] then Some pos else None)\<rparr>)
         else s3\<lparr>hoveredAnnotationId := None, tooltipPos := None\<rparr>)"

definition vertexDrag :: "ActiveVertex \<Rightarrow> Point \<Rightarrow> AppState \<Rightarrow> AppState \<Rightarrow> AppState option" where
  "vertexDrag av imgPos s s4 =
     (let selectedId = selectedIds s ! 0 in
      case find (\<lambda>a. ann_id a = selectedId) (annotations s) of
        None \<Rightarrow> Some s4
      | Some ann \<Rightarrow>
          if locked ann then Some s4
          else if shape_type ann = rectangle
          then (if length (points ann) < 2 then None
                else (let p1 = points ann ! 0;
                          p2 = points ann ! 1;
                          minX = min (px p1) (px p2);
                          maxX = max (px p1) (px p2);
                          minY = min (py p1) (py p2);
                          maxY = max (py p1) (py p2);
                          newP1 = (if av_index av = 0 then \<lparr>px = px imgPos, py = py imgPos\<rparr>
                                   else if av_index av = 1 then \<lparr>px = minX, py = py imgPos\<rparr>
                                   else if av_index av = 2 then \<lparr>px = minX, py = minY\<rparr>
                                   else if av_index av = 3 then \<lparr>px = px imgPos, py = minY\<rparr>
                                   else p1);
                          newP2 = (if av_index av = 0 then \<lparr>px = maxX, py = maxY\<rparr>
                                   else if av_index av = 1 then \<lparr>px = px imgPos, py = maxY\<rparr>
                                   else if av_index av = 2 then \<lparr>px = px imgPos, py = py imgPos\<rparr>
                                   else if av_index av = 3 then \<lparr>px = maxX, py = py imgPos\<rparr>
                                   else p2);
                          newAnn = ann\<lparr>points := [newP1, newP2]\<rparr>
                      in Some (s4\<lparr>annotations :=
                                    map (\<lambda>a. if ann_id a = selectedId then newAnn else a)
                                        (annotations s)\<rparr>)))
          else (if av_index av > length (points ann) then None
                else (let newPoints = (if av_index av < length (points ann)
                                       then (points ann)[av_index av := imgPos]
                                       else points ann @ [imgPos]);
                          newAnn = ann\<lparr>points := newPoints\<rparr>
                      in Some (s4\<lparr>annotations :=
                                    map (\<lambda>a. if ann_id a = selectedId then newAnn else a)
                                        (annotations s)\<rparr>))))"

definition handleMouseMove :: "DOMRect option \<Rightarrow> MouseEvent \<Rightarrow> AppState \<Rightarrow> AppState option" where
  "handleMouseMove rect e s =
     (let pos = getMousePos rect e;
          imgPos = getRelativeImagePos rect e s;
          s4 = hoverUpdate pos imgPos s
      in if (currentTool s = pan \<or> isSpacePressed s \<or> button e = 1)
            \<and> isDragging s \<and> dragStart s \<noteq> None
         then (let dx = clientX e - px (the (dragStart s));
                   dy = clientY e - py (the (dragStart s))
               in Some (s4\<lparr>transform := (transform s)\<lparr>tx := tx (transform s) + dx,
                                                       ty := ty (transform s) + dy\<rparr>,
                           dragStart := Some \<lparr>px = clientX e, py = clientY e\<rparr>\<rparr>))
         else if isDragging s \<and> dragStart s \<noteq> None \<and> length (selectedIds s) > 0
                 \<and> activeVertex s = None \<and> currentTool s = select
         then (if hasLocked (selectedIds s) (annotations s) then Some s4
               else (let dx = px imgPos - px (the (dragStart s));
                         dy = py imgPos - py (the (dragStart s))
                     in Some (s4\<lparr>annotations :=
                                   moveSelected (selectedIds s) dx dy (annotations s),
                                 dragStart := Some imgPos\<rparr>)))
         else if activeVertex s \<noteq> None \<and> length (selectedIds s) = 1
         then vertexDrag (the (activeVertex s)) imgPos s s4
         else Some s4)"

text \<open>
  Pointer up (also run when the pointer leaves the canvas). The handler takes no event:
  the release position is \<open>currentMouseImagePos\<close>, the position that the last pointer
  move recorded, or the origin when none was.
\<close>

definition handleMouseUp :: "string \<Rightarrow> AppState \<Rightarrow> AppState" where
  "handleMouseUp now s =
     (let s1 = s\<lparr>isDragging := False, dragStart := None, activeVertex := None\<rparr> in
      if pendingRectStart s \<noteq> None \<and> currentTool s = rectangle_tool
      then (let start = the (pendingRectStart s);
                imgPos = (case currentMouseImagePos s of
                            None \<Rightarrow> \<lparr>px = 0, py = 0\<rparr> | Some p \<Rightarrow> p);
                s2 = (if \<bar>px imgPos - px start\<bar> > 1 \<and> \<bar>py imgPos - py start\<bar> > 1
                      then (let newRect = \<lparr>ann_id = now, label = ''defect'',
                                            shape_type = rectangle, points = [start, imgPos],
                                            color = getNextColor s, visible = True,
                                            locked = False\<rparr>;
                                cx = (px start + px imgPos) / 2;
                                cy = (py start + py imgPos) / 2;
                                screenPos = imageToScreen (cx + px (canvasPadding s))
                                              (cy + py (canvasPadding s)) (transform s)
                            in handleShapeComplete (ann_id newRect) screenPos
                                 (s1\<lparr>annotations := annotations s @ [newRect],
                                     selectedIds := [ann_id newRect]\<rparr>))
                      else s1)
            in s2\<lparr>pendingRectStart := None\<rparr>)
      else s1)"

subsection \<open>Sidebar and the remaining handlers of App\<close>

text \<open>
  The handlers of \<open>src/App.tsx\<close> that the sidebar reaches, with the guards of the
  sidebar (\<open>src/unnamed/part_000\<close>, lines 240 to 340): a click on a row selects, and
  does nothing for a locked annotation; the buttons for editing the label and for
  deleting are there for unlocked annotations only.
\<close>

definition handleToggleVisible :: "string \<Rightarrow> AppState \<Rightarrow> AppState \<Rightarrow> AppState" where
  "handleToggleVisible ident c s =
     s\<lparr>annotations :=
         map (\<lambda>a. if ann_id a = ident then a\<lparr>visible := \<not> visible a\<rparr> else a) (annotations s)\<rparr>"

definition handleToggleLock :: "string \<Rightarrow> AppState \<Rightarrow> AppState \<Rightarrow> AppState" where
  "handleToggleLock ident c s =
     (let s1 = s\<lparr>annotations :=
                  map (\<lambda>a. if ann_id a = ident then a\<lparr>locked := \<not> locked a\<rparr> else a)
                      (annotations s)\<rparr>
      in if ident \<in> set (selectedIds c)
         then s1\<lparr>selectedIds := filter (\<lambda>sid. sid \<noteq> ident) (selectedIds s1)\<rparr>
         else s1)"

text \<open>\<open>rect\<close> is the bounding rectangle of the element that was clicked.\<close>

definition handleEditLabel :: "string \<Rightarrow> DOMRect \<Rightarrow> AppState \<Rightarrow> AppState \<Rightarrow> AppState" where
  "handleEditLabel ident rect c s =
     s\<lparr>labelPopup := \<lparr>lp_visible = True, lp_x = rect_left rect - 290, lp_y = rect_top rect,
                       lp_id = Some ident\<rparr>,
       selectedIds := [ident]\<rparr>"

text \<open>
  \<open>getLabelColor\<close> of \<open>src/constants.ts\<close> only chooses the colour string of a label
  key; it is a parameter here.
\<close>

definition handleLabelSelect ::
  "(string \<Rightarrow> string) \<Rightarrow> string \<Rightarrow> AppState \<Rightarrow> AppState \<Rightarrow> AppState" where
  "handleLabelSelect getLabelColor labelKey c s =
     (let s2 = (case lp_id (labelPopup c) of
                  None \<Rightarrow> s
                | Some ident \<Rightarrow>
                    if ident = [] then s
                    else (let s1 = snapshotHistory action_change_label c s
                          in s1\<lparr>annotations :=
                                  map (\<lambda>ann. if ann_id ann = ident
                                              then ann\<lparr>label := labelKey,
                                                       color := getLabelColor labelKey\<rparr>
                                              else ann)
                                      (annotations s1)\<rparr>))
      in s2\<lparr>labelPopup := (labelPopup c)\<lparr>lp_visible := False, lp_id := None\<rparr>\<rparr>)"

datatype DistributeType = horizontal | vertical

text \<open>
  \<open>sort\<close> with the comparator \<open>centre a - centre b\<close> is a stable ascending sort by the
  centre. \<open>forEach\<close> walks the sorted shapes with their index and rewrites the entry of
  \<open>newAnnotations\<close> that \<open>findIndex\<close> finds for the shape's id.
\<close>

definition handleDistribute :: "DistributeType \<Rightarrow> AppState \<Rightarrow> AppState \<Rightarrow> AppState" where
  "handleDistribute type c s =
     (let selectedAnns = filter (\<lambda>a. ann_id a \<in> set (selectedIds c)) (annotations c) in
      if length selectedAnns < 3 then s
      else (let s1 = snapshotHistory action_distribute c s;
                centre = (\<lambda>a. if type = horizontal then centerX (getAnnotationBounds a)
                               else centerY (getAnnotationBounds a));
                sorted = sort_key centre selectedAnns;
                start = centre (sorted ! 0);
                finish = centre (sorted ! (length sorted - 1));
                step = (finish - start) / real (length sorted - 1);
                newAnnotations =
                  fold (\<lambda>entry newAnns.
                          (let index = fst entry;
                               ann = snd entry;
                               targetPos = start + step * real index;
                               diff = targetPos - centre ann
                           in case findIndex (\<lambda>a. ann_id a = ann_id ann) newAnns of
                                None \<Rightarrow> newAnns
                              | Some annIndex \<Rightarrow>
                                  newAnns[annIndex :=
                                    moveAnnotation (newAnns ! annIndex)
                                      (if type = horizontal then diff else 0)
                                      (if type = vertical then diff else 0)]))
                       (enumerate 0 sorted) (annotations c)
            in s1\<lparr>annotations := newAnnotations\<rparr>))"

text \<open>
  The \<open>onload\<close> handler of an uploaded image, for the window and the size of the image.
\<close>

definition handleImageLoad :: "Window \<Rightarrow> ImageSize \<Rightarrow> AppState \<Rightarrow> AppState \<Rightarrow> AppState" where
  "handleImageLoad win img c s =
     (let maxWidth = innerWidth win - 384;
          maxHeight = innerHeight win;
          sc = min (maxWidth / img_width img) (maxHeight / img_height img) * (9 / 10);
          nx = (maxWidth - img_width img * sc) / 2 - px (canvasPadding c) * sc;
          ny = (maxHeight - img_height img * sc) / 2 - py (canvasPadding c) * sc
      in s\<lparr>imageSize := img,
           transform := \<lparr>scale = sc, tx = nx, ty = ny\<rparr>,
           annotations := [],
           history := \<lparr>past = [], future = []\<rparr>\<rparr>)"

text \<open>The row click of the sidebar, with the control and meta keys of the click.\<close>

definition sidebarSelect :: "Annotation \<Rightarrow> bool \<Rightarrow> bool \<Rightarrow> AppState \<Rightarrow> AppState" where
  "sidebarSelect ann ctrl meta s =
     (if locked ann then s
      else if ctrl \<or> meta
      then (if ann_id ann \<in> set (selectedIds s)
            then s\<lparr>selectedIds := filter (\<lambda>i. i \<noteq> ann_id ann) (selectedIds s)\<rparr>
            else s\<lparr>selectedIds := selectedIds s @ [ann_id ann]\<rparr>)
      else s\<lparr>selectedIds := [ann_id ann]\<rparr>)"

definition handleKeyUp :: "KeyboardEvent \<Rightarrow> AppState \<Rightarrow> AppState" where
  "handleKeyUp e s =
     (if k_code e = ''Space'' then s\<lparr>isSpacePressed := False, isDragging := False\<rparr> else s)"

subsection \<open>Initial state\<close>

definition DEFAULT_KEY_MAP :: KeyMap where
  "DEFAULT_KEY_MAP a =
     (let plain = (\<lambda>k. Some \<lparr>kb_key = k, kb_ctrlKey = None, kb_shiftKey = None,
                              kb_altKey = None\<rparr>)
      in case a of
           TOOL_SELECT \<Rightarrow> plain ''v''
         | TOOL_PAN \<Rightarrow> plain ''h''
         | TOOL_RECTANGLE \<Rightarrow> plain ''r''
         | TOOL_POLYGON \<Rightarrow> plain ''p''
         | ZOOM_IN \<Rightarrow> plain ''=''
         | ZOOM_OUT \<Rightarrow> plain ''-''
         | RESET_VIEW \<Rightarrow> plain ''0''
         | UNDO \<Rightarrow> Some \<lparr>kb_key = ''z'', kb_ctrlKey = Some True, kb_shiftKey = None,
                           kb_altKey = None\<rparr>
         | REDO \<Rightarrow> Some \<lparr>kb_key = ''z'', kb_ctrlKey = Some True, kb_shiftKey = Some True,
                           kb_altKey = None\<rparr>
         | DELETE \<Rightarrow> plain ''Delete''
         | CANCEL \<Rightarrow> plain ''Escape''
         | BACKSPACE_POINT \<Rightarrow> plain ''Backspace''
         | NUDGE_LEFT \<Rightarrow> plain ''ArrowLeft''
         | NUDGE_RIGHT \<Rightarrow> plain ''ArrowRight''
         | NUDGE_UP \<Rightarrow> plain ''ArrowUp''
         | NUDGE_DOWN \<Rightarrow> plain ''ArrowDown'')"

text \<open>
  The initial values of the \<open>useState\<close> calls of \<open>App\<close> and \<open>CanvasArea\<close>, with no
  key map saved in local storage.
\<close>

definition initialState :: AppState where
  "initialState =
     \<lparr>annotations = [],
      selectedIds = [],
      currentTool = select,
      transform = \<lparr>scale = 1, tx = 0, ty = 0\<rparr>,
      canvasPadding = \<lparr>px = 50, py = 50\<rparr>,
      history = \<lparr>past = [], future = []\<rparr>,
      keyMap = DEFAULT_KEY_MAP,
      labelPopup = \<lparr>lp_visible = False, lp_x = 0, lp_y = 0, lp_id = None\<rparr>,
      imageSize = \<lparr>img_width = 0, img_height = 0\<rparr>,
      isDragging = False,
      dragStart = None,
      currentMouseImagePos = None,
      isHoveringStartPoint = False,
      hoveredEdge = None,
      hoveredAnnotationId = None,
      tooltipPos = None,
      pendingPoly = [],
      pendingRectStart = None,
      activeVertex = None,
      isSpacePressed = False\<rparr>"

subsection \<open>Reachable states\<close>

text \<open>
  The states that the application reaches from its initial state: one rule for every
  handler that writes the state, run on the state of the latest render. The sidebar
  offers the rows of the annotations of the collection; a click on a row selects, and the
  buttons for editing the label and for deleting are there for unlocked rows only. A key
  press runs the key handler of \<open>App\<close> and the key handler of the canvas: they are two
  steps. \<open>Date.now()\<close> is later than the creation time of every shape of the collection,
  so the id \<open>now\<close> of a new shape is not among the ids of the collection. A pointer
  handler that raises leaves no state.
\<close>

inductive reachable :: "AppState \<Rightarrow> bool" where
  initial: "reachable initialState"
| imageLoad: "reachable s \<Longrightarrow> reachable (handleImageLoad win img s s)"
| setTool: "reachable s \<Longrightarrow> reachable (s\<lparr>currentTool := t\<rparr>)"
| zoom: "reachable s \<Longrightarrow> reachable (s\<lparr>transform := handleZoom d (transform s)\<rparr>)"
| resetView: "reachable s \<Longrightarrow> reachable (handleResetView win s s)"
| wheel: "reachable s \<Longrightarrow> reachable (s\<lparr>transform := onWheel r we (transform s)\<rparr>)"
| setKeyMap: "reachable s \<Longrightarrow> reachable (s\<lparr>keyMap := km\<rparr>)"
| closePopup:
    "reachable s \<Longrightarrow> reachable (s\<lparr>labelPopup := (labelPopup s)\<lparr>lp_visible := False\<rparr>\<rparr>)"
| undo: "reachable s \<Longrightarrow> reachable (handleUndo s s)"
| redo: "reachable s \<Longrightarrow> reachable (handleRedo s s)"
| appKey: "reachable s \<Longrightarrow> reachable (handleKeyDown_App win ke s)"
| canvasKey: "reachable s \<Longrightarrow> reachable (handleKeyDown ke s)"
| keyUp: "reachable s \<Longrightarrow> reachable (handleKeyUp ke s)"
| mouseDown:
    "reachable s \<Longrightarrow> now \<notin> set (map ann_id (annotations s)) \<Longrightarrow>
     handleMouseDown rect now me s = Some s' \<Longrightarrow> reachable s'"
| mouseMove: "reachable s \<Longrightarrow> handleMouseMove rect me s = Some s' \<Longrightarrow> reachable s'"
| mouseUp:
    "reachable s \<Longrightarrow> now \<notin> set (map ann_id (annotations s)) \<Longrightarrow>
     reachable (handleMouseUp now s)"
| rowClick:
    "reachable s \<Longrightarrow> ann \<in> set (annotations s) \<Longrightarrow> reachable (sidebarSelect ann ctrl meta s)"
| rowDelete:
    "reachable s \<Longrightarrow> ann \<in> set (annotations s) \<Longrightarrow> \<not> locked ann \<Longrightarrow>
     reachable (handleDelete [ann_id ann] s s)"
| rowEditLabel:
    "reachable s \<Longrightarrow> ann \<in> set (annotations s) \<Longrightarrow> \<not> locked ann \<Longrightarrow>
     reachable (handleEditLabel (ann_id ann) r s s)"
| toggleVisible: "reachable s \<Longrightarrow> reachable (handleToggleVisible ident s s)"
| toggleLock: "reachable s \<Longrightarrow> reachable (handleToggleLock ident s s)"
| labelSelect: "reachable s \<Longrightarrow> reachable (handleLabelSelect col labelKey s s)"
| align: "reachable s \<Longrightarrow> reachable (handleAlign atype s s)"
| distribute: "reachable s \<Longrightarrow> reachable (handleDistribute dtype s s)"

text \<open>
  The ids of the collection are unique and no selected id is the id of a locked
  annotation; every snapshot of the history has unique ids.
\<close>

definition selectionUnlocked :: "AppState \<Rightarrow> bool" where
  "selectionUnlocked s =
     (distinct (map ann_id (annotations s)) \<and> \<not> hasLocked (selectedIds s) (annotations s))"

definition historyDistinct :: "AppState \<Rightarrow> bool" where
  "historyDistinct s =
     list_all (\<lambda>h. distinct (map ann_id (h_annotations h)))
       (past (history s) @ future (history s))"

definition appInvariant :: "AppState \<Rightarrow> bool" where
  "appInvariant s = (selectionUnlocked s \<and> historyDistinct s)"

text \<open>Two shapes for the examples: a rectangle and a triangle.\<close>

definition rectA :: Annotation where
  "rectA = \<lparr>ann_id = ''1'', label = ''defect'', shape_type = rectangle,
            points = [\<lparr>px = 0, py = 0\<rparr>, \<lparr>px = 10, py = 10\<rparr>],
            color = ''#ef4444'', visible = True, locked = False\<rparr>"

definition polyB :: Annotation where
  "polyB = \<lparr>ann_id = ''2'', label = ''defect'', shape_type = polygon,
            points = [\<lparr>px = 20, py = 5\<rparr>, \<lparr>px = 30, py = 5\<rparr>, \<lparr>px = 25, py = 15\<rparr>],
            color = ''#f97316'', visible = True, locked = False\<rparr>"

section \<open>Example inputs\<close>

text \<open>
  The container at the origin of the client area, a left click without modifiers, and
  the initial state with a 100 by 100 image and the rectangle or the polygon tool. At
  scale 1 with the padding of 50 the client position \<open>(cx, cy)\<close> is the image position
  \<open>(cx - 50, cy - 50)\<close>.
\<close>

definition origin_rect :: "DOMRect option" where
  "origin_rect = Some \<lparr>rect_left = 0, rect_top = 0\<rparr>"

definition click :: "real \<Rightarrow> real \<Rightarrow> MouseEvent" where
  "click cx cy = \<lparr>clientX = cx, clientY = cy, button = 0, altKey = False, ctrlKey = False,
                  metaKey = False, shiftKey = False\<rparr>"

definition drawStart :: AppState where
  "drawStart = initialState\<lparr>currentTool := rectangle_tool,
                  imageSize := \<lparr>img_width = 100, img_height = 100\<rparr>\<rparr>"

definition polyStart :: AppState where
  "polyStart = initialState\<lparr>currentTool := polygon_tool,
                  imageSize := \<lparr>img_width = 100, img_height = 100\<rparr>\<rparr>"

text \<open>A drag: pointer down at \<open>e1\<close>, pointer move to \<open>e2\<close>, pointer up.\<close>

definition rectangleDrag ::
  "string \<Rightarrow> MouseEvent \<Rightarrow> MouseEvent \<Rightarrow> AppState \<Rightarrow> AppState option" where
  "rectangleDrag now e1 e2 s =
     (case handleMouseDown origin_rect now e1 s of
        None \<Rightarrow> None
      | Some s1 \<Rightarrow>
          (case handleMouseMove origin_rect e2 s1 of
             None \<Rightarrow> None
           | Some s2 \<Rightarrow> Some (handleMouseUp now s2)))"

text \<open>
  The state after the press at the client position \<open>(ax, ay)\<close>, and after the move to
  \<open>(cx, cy)\<close> that follows.
\<close>

definition afterPress :: "real \<Rightarrow> real \<Rightarrow> AppState" where
  "afterPress ax ay = (snapshotHistory action_create_rectangle drawStart drawStart)
                        \<lparr>pendingRectStart := Some \<lparr>px = ax - 50, py = ay - 50\<rparr>\<rparr>"

definition afterMove :: "real \<Rightarrow> real \<Rightarrow> real \<Rightarrow> real \<Rightarrow> AppState" where
  "afterMove ax ay cx cy =
     hoverUpdate (getMousePos origin_rect (click cx cy)) \<lparr>px = cx - 50, py = cy - 50\<rparr>
       (afterPress ax ay)"

text \<open>A click: pointer down, then pointer up; and a sequence of clicks.\<close>

definition clickAt :: "string \<Rightarrow> MouseEvent \<Rightarrow> AppState \<Rightarrow> AppState option" where
  "clickAt now e s = map_option (handleMouseUp now) (handleMouseDown origin_rect now e s)"

fun clicksAt :: "string \<Rightarrow> MouseEvent list \<Rightarrow> AppState \<Rightarrow> AppState option" where
  "clicksAt now [] s = Some s"
| "clicksAt now (e # es) s =
     (case clickAt now e s of None \<Rightarrow> None | Some s' \<Rightarrow> clicksAt now es s')"

text \<open>What the clicks of the polygon example keep fixed.\<close>

definition drawing :: "AppState \<Rightarrow> bool" where
  "drawing s = (currentTool s = polygon_tool \<and> \<not> isSpacePressed s \<and> annotations s = [] \<and>
                transform s = \<lparr>scale = 1, tx = 0, ty = 0\<rparr> \<and>
                canvasPadding s = \<lparr>px = 50, py = 50\<rparr> \<and> pendingRectStart s = None)"


text \<open>
  The lock example. A browser window and an image for which the fitted view has the
  scale 1 and no offset; a second rectangle B and its locked copy; a key press without
  modifiers outside any input field.
\<close>

definition exampleWindow :: Window where
  "exampleWindow = \<lparr>innerWidth = 1384, innerHeight = 1000\<rparr>"

definition exampleImage :: ImageSize where
  "exampleImage = \<lparr>img_width = 900, img_height = 900\<rparr>"

text \<open>The state after the image is loaded, and with the rectangle tool chosen then.\<close>

definition loaded :: AppState where
  "loaded = handleImageLoad exampleWindow exampleImage initialState initialState"

definition rectStart :: AppState where
  "rectStart = loaded\<lparr>currentTool := rectangle_tool\<rparr>"

definition rectB :: Annotation where
  "rectB = \<lparr>ann_id = ''2'', label = ''defect'', shape_type = rectangle,
            points = [\<lparr>px = 20, py = 5\<rparr>, \<lparr>px = 30, py = 15\<rparr>],
            color = ''#f97316'', visible = True, locked = False\<rparr>"

definition lockedB :: Annotation where
  "lockedB = rectB\<lparr>locked := True\<rparr>"

definition keyPress :: "string \<Rightarrow> KeyboardEvent" where
  "keyPress k = \<lparr>k_key = k, k_code = k, k_ctrlKey = False, k_metaKey = False,
                 k_shiftKey = False, k_altKey = False, k_repeat = False,
                 target_is_input = False\<rparr>"

text \<open>Choosing the rectangle tool and dragging from \<open>e1\<close> to \<open>e2\<close>.\<close>

definition drawRectangle ::
  "string \<Rightarrow> MouseEvent \<Rightarrow> MouseEvent \<Rightarrow> AppState \<Rightarrow> AppState option" where
  "drawRectangle now e1 e2 s = rectangleDrag now e1 e2 (s\<lparr>currentTool := rectangle_tool\<rparr>)"

text \<open>
  From the initial state: the image is loaded, the rectangle A is drawn from the image
  position \<open>(0, 0)\<close> to \<open>(10, 10)\<close> and the rectangle B from \<open>(20, 5)\<close> to \<open>(30, 15)\<close>, the
  row of A is clicked with the control key, and the lock button of B is clicked.
\<close>

definition lockScene :: "AppState option" where
  "lockScene =
     (case drawRectangle ''1'' (click 50 50) (click 60 60) loaded of
        None \<Rightarrow> None
      | Some s1 \<Rightarrow>
          (case drawRectangle ''2'' (click 70 55) (click 80 65) s1 of
             None \<Rightarrow> None
           | Some s2 \<Rightarrow>
               (let s3 = sidebarSelect rectA True False s2
                in Some (handleToggleLock ''2'' s3 s3))))"

text \<open>What the steps of the lock example keep fixed.\<close>

definition ready :: "AppState \<Rightarrow> bool" where
  "ready s = (\<not> isSpacePressed s \<and> \<not> isDragging s \<and> activeVertex s = None \<and>
              transform s = \<lparr>scale = 1, tx = 0, ty = 0\<rparr> \<and>
              canvasPadding s = \<lparr>px = 50, py = 50\<rparr> \<and> imageSize s = exampleImage \<and>
              keyMap s = DEFAULT_KEY_MAP \<and> pendingPoly s = [] \<and> pendingRectStart s = None)"
section \<open>Verified properties\<close>

subsection \<open>History\<close>

text \<open>
  C1. A snapshot pushes the current annotation collection, with its action label, onto
  \<open>past\<close> and empties \<open>future\<close>. Let \<open>s2\<close> be any state reached from the snapshot
  by a mutation, that is, any state whose history is still the one the snapshot left.
  Undo in \<open>s2\<close> restores exactly the annotations from before the snapshot and empties the
  selection; redo after that undo restores exactly the annotations of \<open>s2\<close>. Each
  handler runs as the first of its event: the state it reads is the state it updates.
\<close>

theorem undo_redo_restore:
  assumes "history s2 = history (snapshotHistory act s s)"
  shows "past (history (snapshotHistory act s s))
           = past (history s) @ [\<lparr>h_annotations = annotations s, action = act\<rparr>] \<and>
         future (history (snapshotHistory act s s)) = [] \<and>
         annotations (handleUndo s2 s2) = annotations s \<and>
         selectedIds (handleUndo s2 s2) = [] \<and>
         annotations (handleRedo (handleUndo s2 s2) (handleUndo s2 s2)) = annotations s2 \<and>
         selectedIds (handleRedo (handleUndo s2 s2) (handleUndo s2 s2)) = []"
  using assms by (simp add: snapshotHistory_def handleUndo_def handleRedo_def Let_def)

theorem undo_redo_restore_witness:
  "history ((snapshotHistory action_delete
               (initialState\<lparr>annotations := [rectA, polyB], selectedIds := [''1'']\<rparr>)
               (initialState\<lparr>annotations := [rectA, polyB], selectedIds := [''1'']\<rparr>))
            \<lparr>annotations := [polyB]\<rparr>)
     = history (snapshotHistory action_delete
                  (initialState\<lparr>annotations := [rectA, polyB], selectedIds := [''1'']\<rparr>)
                  (initialState\<lparr>annotations := [rectA, polyB], selectedIds := [''1'']\<rparr>)) \<and>
   annotations (handleUndo
      ((snapshotHistory action_delete
          (initialState\<lparr>annotations := [rectA, polyB], selectedIds := [''1'']\<rparr>)
          (initialState\<lparr>annotations := [rectA, polyB], selectedIds := [''1'']\<rparr>))
       \<lparr>annotations := [polyB]\<rparr>)
      ((snapshotHistory action_delete
          (initialState\<lparr>annotations := [rectA, polyB], selectedIds := [''1'']\<rparr>)
          (initialState\<lparr>annotations := [rectA, polyB], selectedIds := [''1'']\<rparr>))
       \<lparr>annotations := [polyB]\<rparr>))
     = [rectA, polyB]"
  using undo_redo_restore
          [of "(snapshotHistory action_delete
                  (initialState\<lparr>annotations := [rectA, polyB], selectedIds := [''1'']\<rparr>)
                  (initialState\<lparr>annotations := [rectA, polyB], selectedIds := [''1'']\<rparr>))
               \<lparr>annotations := [polyB]\<rparr>"
              action_delete
              "initialState\<lparr>annotations := [rectA, polyB], selectedIds := [''1'']\<rparr>"]
  by simp

subsection \<open>Coordinate round trip\<close>

text \<open>
  C3. For every point \<open>p\<close> and every view transform with a scale other than zero, mapping
  \<open>p\<close> from image space to screen space and back gives \<open>p\<close> again. Over the reals the
  round trip is exact.
\<close>

theorem screenToImage_imageToScreen:
  assumes "scale T \<noteq> 0"
  shows "screenToImage (px (imageToScreen (px p) (py p) T))
           (py (imageToScreen (px p) (py p) T)) T = p"
  using assms by (simp add: screenToImage_def imageToScreen_def)

theorem screenToImage_imageToScreen_witness:
  "scale \<lparr>scale = 2, tx = 30, ty = - 4\<rparr> \<noteq> 0 \<and>
   screenToImage
     (px (imageToScreen 7 5 \<lparr>scale = 2, tx = 30, ty = - 4\<rparr>))
     (py (imageToScreen 7 5 \<lparr>scale = 2, tx = 30, ty = - 4\<rparr>))
     \<lparr>scale = 2, tx = 30, ty = - 4\<rparr> = \<lparr>px = 7, py = 5\<rparr>"
  using screenToImage_imageToScreen
          [of "\<lparr>scale = 2, tx = 30, ty = - 4\<rparr>" "\<lparr>px = 7, py = 5\<rparr>"]
  by simp

subsection \<open>Wheel zoom\<close>

lemma onWheel_scale:
  "scale (onWheel rect e T) =
     max (1 / 10) (min (scale T * (if deltaY e < 0 then 11 / 10 else 9 / 10)) 50)"
  by (simp add: onWheel_def Let_def)

lemma onWheel_scale_range:
  "1 / 10 \<le> scale (onWheel rect e T) \<and> scale (onWheel rect e T) \<le> 50"
  by (simp add: onWheel_scale)

text \<open>
  C4. For every wheel event and every transform with a scale other than zero, the image
  point under the pointer is the same before and after the wheel step, whether or not
  the new scale was clamped: the new translation is the pointer's screen position \<open>m\<close>
  less \<open>(m - old translation) * (new scale / old scale)\<close>. The pointer's screen position
  is its client position less the container's left and top.
\<close>

theorem onWheel_keeps_anchor:
  assumes "scale T \<noteq> 0"
  shows "screenToImage (w_clientX e - rect_left rect) (w_clientY e - rect_top rect)
           (onWheel rect e T)
         = screenToImage (w_clientX e - rect_left rect) (w_clientY e - rect_top rect) T \<and>
         tx (onWheel rect e T) =
           (w_clientX e - rect_left rect)
           - ((w_clientX e - rect_left rect) - tx T) * (scale (onWheel rect e T) / scale T) \<and>
         ty (onWheel rect e T) =
           (w_clientY e - rect_top rect)
           - ((w_clientY e - rect_top rect) - ty T) * (scale (onWheel rect e T) / scale T)"
proof -
  define ns where "ns = scale (onWheel rect e T)"
  have ns: "ns \<noteq> 0"
    using onWheel_scale_range [of rect e T] by (simp add: ns_def)
  have sc: "scale (onWheel rect e T) = ns"
    by (simp add: ns_def)
  have x: "tx (onWheel rect e T) =
             (w_clientX e - rect_left rect)
             - ((w_clientX e - rect_left rect) - tx T) * (ns / scale T)"
    by (simp add: ns_def onWheel_def Let_def)
  have y: "ty (onWheel rect e T) =
             (w_clientY e - rect_top rect)
             - ((w_clientY e - rect_top rect) - ty T) * (ns / scale T)"
    by (simp add: ns_def onWheel_def Let_def)
  have "screenToImage (w_clientX e - rect_left rect) (w_clientY e - rect_top rect)
           (onWheel rect e T)
         = screenToImage (w_clientX e - rect_left rect) (w_clientY e - rect_top rect) T"
    using ns assms by (simp add: screenToImage_def sc x y)
  then show ?thesis
    using x y by (simp only: sc)
qed

text \<open>The witness zooms in at scale 50, where the new scale is clamped.\<close>

theorem onWheel_keeps_anchor_witness:
  "scale \<lparr>scale = 50, tx = 10, ty = 20\<rparr> \<noteq> 0 \<and>
   scale (onWheel \<lparr>rect_left = 5, rect_top = 5\<rparr>
            \<lparr>deltaY = - 1, w_clientX = 105, w_clientY = 205\<rparr>
            \<lparr>scale = 50, tx = 10, ty = 20\<rparr>) = 50 \<and>
   screenToImage (105 - 5) (205 - 5)
     (onWheel \<lparr>rect_left = 5, rect_top = 5\<rparr>
        \<lparr>deltaY = - 1, w_clientX = 105, w_clientY = 205\<rparr>
        \<lparr>scale = 50, tx = 10, ty = 20\<rparr>)
   = screenToImage (105 - 5) (205 - 5) \<lparr>scale = 50, tx = 10, ty = 20\<rparr>"
  using onWheel_keeps_anchor
          [of "\<lparr>scale = 50, tx = 10, ty = 20\<rparr>"
              "\<lparr>deltaY = - 1, w_clientX = 105, w_clientY = 205\<rparr>"
              "\<lparr>rect_left = 5, rect_top = 5\<rparr>"]
  by (simp add: onWheel_def Let_def)

text \<open>
  C5. Each wheel step multiplies the scale by 1.1 or 0.9 and clamps the product to
  the interval from 0.1 to 50; starting from a scale in that interval, the scale is in
  it after any finite sequence of wheel events.
\<close>

theorem wheels_scale_range:
  assumes "1 / 10 \<le> scale T" and "scale T \<le> 50"
  shows "1 / 10 \<le> scale (wheels rect es T) \<and> scale (wheels rect es T) \<le> 50 \<and>
         scale (onWheel rect e T) =
           max (1 / 10) (min (scale T * (if deltaY e < 0 then 1 + 1 / 10 else 1 - 1 / 10)) 50)"
proof -
  have "1 / 10 \<le> scale (wheels rect es T) \<and> scale (wheels rect es T) \<le> 50"
    using assms
  proof (induction es arbitrary: T)
    case Nil
    then show ?case by simp
  next
    case (Cons a es)
    show ?case
      using Cons.IH [of "onWheel rect a T"] onWheel_scale_range [of rect a T] by simp
  qed
  moreover have "scale (onWheel rect e T) =
           max (1 / 10) (min (scale T * (if deltaY e < 0 then 1 + 1 / 10 else 1 - 1 / 10)) 50)"
    by (simp add: onWheel_scale)
  ultimately show ?thesis by simp
qed

theorem wheels_scale_range_witness:
  "1 / 10 \<le> scale \<lparr>scale = 48, tx = 0, ty = 0\<rparr> \<and>
   scale \<lparr>scale = 48, tx = 0, ty = 0\<rparr> \<le> 50 \<and>
   scale (wheels \<lparr>rect_left = 0, rect_top = 0\<rparr>
            [\<lparr>deltaY = - 1, w_clientX = 3, w_clientY = 4\<rparr>,
             \<lparr>deltaY = 1, w_clientX = 3, w_clientY = 4\<rparr>]
            \<lparr>scale = 48, tx = 0, ty = 0\<rparr>) = 45 \<and>
   1 / 10 \<le> scale (wheels \<lparr>rect_left = 0, rect_top = 0\<rparr>
            [\<lparr>deltaY = - 1, w_clientX = 3, w_clientY = 4\<rparr>,
             \<lparr>deltaY = 1, w_clientX = 3, w_clientY = 4\<rparr>]
            \<lparr>scale = 48, tx = 0, ty = 0\<rparr>)"
  using wheels_scale_range
          [of "\<lparr>scale = 48, tx = 0, ty = 0\<rparr>" "\<lparr>rect_left = 0, rect_top = 0\<rparr>"
              "[\<lparr>deltaY = - 1, w_clientX = 3, w_clientY = 4\<rparr>,
                \<lparr>deltaY = 1, w_clientX = 3, w_clientY = 4\<rparr>]"]
  by (simp add: onWheel_def Let_def)

subsection \<open>Keyboard and toolbar zoom\<close>

text \<open>
  C10. \<open>handleZoom\<close> multiplies the scale by 1.2 or divides it by 1.2 and does not
  clamp: from the scale 40 two zoom-in steps give a scale above 50, and from the scale
  1/8 two zoom-out steps give a scale below 0.1. A wheel step, from any transform, ends
  with a scale between 0.1 and 50.
\<close>

theorem handleZoom_not_clamped:
  "scale (handleZoom zoom_in T) = scale T * (12 / 10) \<and>
   scale (handleZoom zoom_out T) = scale T / (12 / 10) \<and>
   (\<exists>s n. 1 / 10 \<le> s \<and> s \<le> 50 \<and>
      50 < scale ((handleZoom zoom_in ^^ n) \<lparr>scale = s, tx = 0, ty = 0\<rparr>)) \<and>
   (\<exists>s n. 1 / 10 \<le> s \<and> s \<le> 50 \<and>
      scale ((handleZoom zoom_out ^^ n) \<lparr>scale = s, tx = 0, ty = 0\<rparr>) < 1 / 10) \<and>
   1 / 10 \<le> scale (onWheel rect e T) \<and> scale (onWheel rect e T) \<le> 50"
proof -
  have a: "50 < scale ((handleZoom zoom_in ^^ 2) \<lparr>scale = 40, tx = 0, ty = 0\<rparr>)"
    by (simp add: handleZoom_def numeral_2_eq_2)
  have b: "scale ((handleZoom zoom_out ^^ 2) \<lparr>scale = 1 / 8, tx = 0, ty = 0\<rparr>) < 1 / 10"
    by (simp add: handleZoom_def numeral_2_eq_2)
  have a': "\<exists>s n. 1 / 10 \<le> s \<and> s \<le> 50 \<and>
      50 < scale ((handleZoom zoom_in ^^ n) \<lparr>scale = s, tx = 0, ty = 0\<rparr>)"
    by (rule exI [of _ 40], rule exI [of _ 2]) (use a in simp)
  have b': "\<exists>s n. 1 / 10 \<le> s \<and> s \<le> 50 \<and>
      scale ((handleZoom zoom_out ^^ n) \<lparr>scale = s, tx = 0, ty = 0\<rparr>) < 1 / 10"
    by (rule exI [of _ "1 / 8"], rule exI [of _ 2]) (use b in simp)
  show ?thesis
    using a' b' onWheel_scale_range [of rect e T] by (simp add: handleZoom_def)
qed

subsection \<open>Pointer handlers: general facts\<close>

lemma hoverUpdate_keeps:
  "annotations (hoverUpdate pos p s) = annotations s"
  "selectedIds (hoverUpdate pos p s) = selectedIds s"
  "currentTool (hoverUpdate pos p s) = currentTool s"
  "transform (hoverUpdate pos p s) = transform s"
  "canvasPadding (hoverUpdate pos p s) = canvasPadding s"
  "history (hoverUpdate pos p s) = history s"
  "imageSize (hoverUpdate pos p s) = imageSize s"
  "isDragging (hoverUpdate pos p s) = isDragging s"
  "dragStart (hoverUpdate pos p s) = dragStart s"
  "pendingPoly (hoverUpdate pos p s) = pendingPoly s"
  "pendingRectStart (hoverUpdate pos p s) = pendingRectStart s"
  "activeVertex (hoverUpdate pos p s) = activeVertex s"
  "isSpacePressed (hoverUpdate pos p s) = isSpacePressed s"
  by (simp_all add: hoverUpdate_def Let_def split: option.split)

lemma hoverUpdate_pos:
  "currentMouseImagePos (hoverUpdate pos p s) =
     Some \<lparr>px = max 0 (min (px p) (img_width (imageSize s))),
           py = max 0 (min (py p) (img_height (imageSize s)))\<rparr>"
  by (simp add: hoverUpdate_def Let_def split: option.split)

lemma handleMouseDown_rectangle:
  "currentTool s = rectangle_tool \<Longrightarrow> \<not> isSpacePressed s \<Longrightarrow> button e = 0 \<Longrightarrow>
   handleMouseDown rect now e s =
     Some ((snapshotHistory action_create_rectangle s s)
             \<lparr>pendingRectStart := Some (getRelativeImagePos rect e s)\<rparr>)"
  by (simp add: handleMouseDown_def Let_def)

lemma handleMouseMove_idle:
  "currentTool s \<noteq> pan \<Longrightarrow> \<not> isSpacePressed s \<Longrightarrow> button e \<noteq> 1 \<Longrightarrow>
   \<not> isDragging s \<Longrightarrow> activeVertex s = None \<Longrightarrow>
   handleMouseMove rect e s =
     Some (hoverUpdate (getMousePos rect e) (getRelativeImagePos rect e s) s)"
  by (simp add: handleMouseMove_def Let_def)


subsection \<open>Rectangle tool\<close>

lemma drawStart_simps:
  "currentTool drawStart = rectangle_tool" "\<not> isSpacePressed drawStart" "\<not> isDragging drawStart"
  "activeVertex drawStart = None" "annotations drawStart = []"
  "imageSize drawStart = \<lparr>img_width = 100, img_height = 100\<rparr>"
  "transform drawStart = \<lparr>scale = 1, tx = 0, ty = 0\<rparr>"
  "canvasPadding drawStart = \<lparr>px = 50, py = 50\<rparr>"
  "currentMouseImagePos drawStart = None"
  by (simp_all add: drawStart_def initialState_def)

lemma click_simps: "button (click cx cy) = 0" "clientX (click cx cy) = cx" "clientY (click cx cy) = cy"
  by (simp_all add: click_def)

lemma pos_drawStart:
  "getRelativeImagePos origin_rect (click cx cy) drawStart = \<lparr>px = cx - 50, py = cy - 50\<rparr>"
  by (simp add: getRelativeImagePos_def getMousePos_def origin_rect_def click_simps screenToImage_def Let_def drawStart_simps)

lemma afterPress_simps:
  "currentTool (afterPress ax ay) = rectangle_tool" "\<not> isSpacePressed (afterPress ax ay)"
  "\<not> isDragging (afterPress ax ay)"
  "activeVertex (afterPress ax ay) = None" "annotations (afterPress ax ay) = []"
  "imageSize (afterPress ax ay) = \<lparr>img_width = 100, img_height = 100\<rparr>"
  "transform (afterPress ax ay) = \<lparr>scale = 1, tx = 0, ty = 0\<rparr>"
  "canvasPadding (afterPress ax ay) = \<lparr>px = 50, py = 50\<rparr>"
  "pendingRectStart (afterPress ax ay) = Some \<lparr>px = ax - 50, py = ay - 50\<rparr>"
  by (simp_all add: afterPress_def snapshotHistory_def drawStart_simps)

lemma press: "handleMouseDown origin_rect now (click ax ay) drawStart = Some (afterPress ax ay)"
  by (simp add: handleMouseDown_rectangle drawStart_simps click_simps pos_drawStart afterPress_def)

lemma pos_afterPress:
  "getRelativeImagePos origin_rect (click cx cy) (afterPress ax ay)
     = \<lparr>px = cx - 50, py = cy - 50\<rparr>"
  by (simp add: getRelativeImagePos_def getMousePos_def origin_rect_def click_simps
        screenToImage_def Let_def afterPress_simps)

lemma move:
  "handleMouseMove origin_rect (click cx cy) (afterPress ax ay) = Some (afterMove ax ay cx cy)"
  by (simp add: handleMouseMove_idle afterPress_simps click_simps pos_afterPress afterMove_def)

lemma rectangleDrag_eq:
  "rectangleDrag now (click ax ay) (click cx cy) drawStart
     = Some (handleMouseUp now (afterMove ax ay cx cy))"
  by (simp add: rectangleDrag_def press move)

lemma afterMove_simps:
  "currentTool (afterMove ax ay cx cy) = rectangle_tool"
  "pendingRectStart (afterMove ax ay cx cy) = Some \<lparr>px = ax - 50, py = ay - 50\<rparr>"
  "annotations (afterMove ax ay cx cy) = []"
  "currentMouseImagePos (afterMove ax ay cx cy) =
     Some \<lparr>px = max 0 (min (cx - 50) 100), py = max 0 (min (cy - 50) 100)\<rparr>"
  by (simp_all add: afterMove_def hoverUpdate_keeps hoverUpdate_pos afterPress_simps)

lemma vertexDrag_pos:
  "vertexDrag av p s s4 = Some s' \<Longrightarrow> currentMouseImagePos s' = currentMouseImagePos s4"
  by (auto simp add: vertexDrag_def Let_def split: option.splits if_splits)

lemma handleMouseMove_records:
  assumes "handleMouseMove rect e s0 = Some s"
  shows "currentMouseImagePos s =
           Some \<lparr>px = max 0 (min (px (getRelativeImagePos rect e s0)) (img_width (imageSize s0))),
                 py = max 0 (min (py (getRelativeImagePos rect e s0)) (img_height (imageSize s0)))\<rparr>"
proof -
  have vd: "currentMouseImagePos s = currentMouseImagePos (hoverUpdate pos p s0)"
    if "vertexDrag av p s0 (hoverUpdate pos p s0) = Some s" for av p pos
    using that by (rule vertexDrag_pos)
  show ?thesis
    using assms vd
    by (auto simp add: handleMouseMove_def Let_def hoverUpdate_pos split: if_splits)
qed

text \<open>A drag with the rectangle tool on the loaded example image, step by step.\<close>

lemma ready_loaded:
  "ready loaded" "annotations loaded = []" "reachable loaded"
  "ready rectStart" "annotations rectStart = []" "reachable rectStart"
  "currentTool rectStart = rectangle_tool"
proof -
  show l: "ready loaded" and "annotations loaded = []"
    by (simp_all add: loaded_def ready_def handleImageLoad_def Let_def exampleWindow_def
          exampleImage_def initialState_def)
  show r: "reachable loaded"
    unfolding loaded_def by (intro reachable.imageLoad reachable.initial)
  show "ready rectStart"
    using l by (simp add: rectStart_def ready_def)
  show "annotations rectStart = []"
    by (simp add: rectStart_def \<open>annotations loaded = []\<close>)
  show "reachable rectStart"
    unfolding rectStart_def using r by (rule reachable.setTool)
  show "currentTool rectStart = rectangle_tool"
    by (simp add: rectStart_def)
qed

lemma pos_ready:
  "ready s \<Longrightarrow> getRelativeImagePos origin_rect (click cx cy) s = \<lparr>px = cx - 50, py = cy - 50\<rparr>"
  by (simp add: ready_def getRelativeImagePos_def getMousePos_def origin_rect_def click_simps
        screenToImage_def Let_def)

lemma rectangleDrag_ready:
  assumes "ready s0" and "currentTool s0 = rectangle_tool"
  shows "\<exists>s1 s2. handleMouseDown origin_rect now (click ax ay) s0 = Some s1 \<and>
           handleMouseMove origin_rect (click cx cy) s1 = Some s2 \<and>
           rectangleDrag now (click ax ay) (click cx cy) s0 = Some (handleMouseUp now s2) \<and>
           pendingRectStart s1 = Some \<lparr>px = ax - 50, py = ay - 50\<rparr> \<and>
           getRelativeImagePos origin_rect (click cx cy) s1 = \<lparr>px = cx - 50, py = cy - 50\<rparr> \<and>
           annotations s1 = annotations s0 \<and>
           currentTool s2 = rectangle_tool \<and>
           pendingRectStart s2 = Some \<lparr>px = ax - 50, py = ay - 50\<rparr> \<and>
           currentMouseImagePos s2 =
             Some \<lparr>px = max 0 (min (cx - 50) 900), py = max 0 (min (cy - 50) 900)\<rparr> \<and>
           annotations s2 = annotations s0 \<and> \<not> isSpacePressed s2 \<and>
           transform s2 = \<lparr>scale = 1, tx = 0, ty = 0\<rparr> \<and>
           canvasPadding s2 = \<lparr>px = 50, py = 50\<rparr> \<and> imageSize s2 = exampleImage \<and>
           keyMap s2 = DEFAULT_KEY_MAP \<and> pendingPoly s2 = []"
proof -
  define s1 where "s1 = (snapshotHistory action_create_rectangle s0 s0)
                          \<lparr>pendingRectStart := Some \<lparr>px = ax - 50, py = ay - 50\<rparr>\<rparr>"
  define s2 where "s2 = hoverUpdate (getMousePos origin_rect (click cx cy))
                          \<lparr>px = cx - 50, py = cy - 50\<rparr> s1"
  have f0: "\<not> isSpacePressed s0" using assms(1) by (simp add: ready_def)
  have d: "handleMouseDown origin_rect now (click ax ay) s0 = Some s1"
    using handleMouseDown_rectangle [OF assms(2) f0, of "click ax ay" origin_rect now]
    by (simp add: click_simps pos_ready [OF assms(1)] s1_def)
  have r1: "\<not> isSpacePressed s1" "\<not> isDragging s1" "activeVertex s1 = None"
    "transform s1 = \<lparr>scale = 1, tx = 0, ty = 0\<rparr>" "canvasPadding s1 = \<lparr>px = 50, py = 50\<rparr>"
    "imageSize s1 = exampleImage" "keyMap s1 = DEFAULT_KEY_MAP" "pendingPoly s1 = []"
    "currentTool s1 = rectangle_tool" "annotations s1 = annotations s0"
    "pendingRectStart s1 = Some \<lparr>px = ax - 50, py = ay - 50\<rparr>"
    using assms by (simp_all add: s1_def ready_def snapshotHistory_def)
  have p1: "getRelativeImagePos origin_rect (click cx cy) s1 = \<lparr>px = cx - 50, py = cy - 50\<rparr>"
    by (simp add: getRelativeImagePos_def getMousePos_def origin_rect_def click_simps
          screenToImage_def Let_def r1)
  have m: "handleMouseMove origin_rect (click cx cy) s1 = Some s2"
    by (simp add: handleMouseMove_idle r1 click_simps p1 s2_def)
  have r2: "\<not> isSpacePressed s2" "transform s2 = \<lparr>scale = 1, tx = 0, ty = 0\<rparr>"
    "canvasPadding s2 = \<lparr>px = 50, py = 50\<rparr>" "imageSize s2 = exampleImage"
    "pendingPoly s2 = []" "currentTool s2 = rectangle_tool" "annotations s2 = annotations s0"
    "pendingRectStart s2 = Some \<lparr>px = ax - 50, py = ay - 50\<rparr>"
    by (simp_all add: s2_def hoverUpdate_keeps r1)
  have k2: "keyMap s2 = DEFAULT_KEY_MAP"
    by (simp add: s2_def hoverUpdate_def Let_def r1 split: option.split)
  have c2: "currentMouseImagePos s2 =
              Some \<lparr>px = max 0 (min (cx - 50) 900), py = max 0 (min (cy - 50) 900)\<rparr>"
    by (simp add: s2_def hoverUpdate_pos r1 exampleImage_def)
  have e: "rectangleDrag now (click ax ay) (click cx cy) s0 = Some (handleMouseUp now s2)"
    by (simp add: rectangleDrag_def d m)
  show ?thesis
    by (intro exI [of _ s1] exI [of _ s2] conjI d m e r1(11) p1 r1(10) r2(6) r2(8) c2 r2(7)
          r2(1) r2(2) r2(3) r2(4) k2 r2(5))
qed

text \<open>
  C6, as the code has it. Pointer up takes no event: the release position \<open>b\<close> it uses
  is \<open>currentMouseImagePos\<close>, or the origin when no position is recorded, and a pointer
  move sets \<open>currentMouseImagePos\<close> to the pointer's image position clamped to the image
  rectangle, from 0 to the width and from 0 to the height. On pointer up with the
  rectangle tool and the anchor \<open>a\<close>, a rectangle with the points \<open>[a, b]\<close> is appended if
  and only if \<open>b\<close> differs from \<open>a\<close> by more than 1 on both axes; otherwise the annotations
  are unchanged. The anchor is cleared in both cases.
\<close>

theorem rectangle_commit:
  assumes "currentTool s = rectangle_tool"
      and "pendingRectStart s = Some a"
      and "b = (case currentMouseImagePos s of None \<Rightarrow> \<lparr>px = 0, py = 0\<rparr> | Some p \<Rightarrow> p)"
  shows "annotations (handleMouseUp now s) =
           (if \<bar>px b - px a\<bar> > 1 \<and> \<bar>py b - py a\<bar> > 1
            then annotations s @ [\<lparr>ann_id = now, label = ''defect'', shape_type = rectangle,
                                   points = [a, b], color = getNextColor s, visible = True,
                                   locked = False\<rparr>]
            else annotations s) \<and>
         pendingRectStart (handleMouseUp now s) = None \<and>
         (\<forall>rect e s0. handleMouseMove rect e s0 = Some s \<longrightarrow>
            b = \<lparr>px = max 0 (min (px (getRelativeImagePos rect e s0)) (img_width (imageSize s0))),
                 py = max 0 (min (py (getRelativeImagePos rect e s0))
                                 (img_height (imageSize s0)))\<rparr>)"
proof (intro conjI allI impI)
  show "annotations (handleMouseUp now s) =
           (if \<bar>px b - px a\<bar> > 1 \<and> \<bar>py b - py a\<bar> > 1
            then annotations s @ [\<lparr>ann_id = now, label = ''defect'', shape_type = rectangle,
                                   points = [a, b], color = getNextColor s, visible = True,
                                   locked = False\<rparr>]
            else annotations s)"
    using assms by (simp add: handleMouseUp_def handleShapeComplete_def Let_def)
  show "pendingRectStart (handleMouseUp now s) = None"
    using assms by (simp add: handleMouseUp_def handleShapeComplete_def Let_def)
next
  fix rect e s0
  assume "handleMouseMove rect e s0 = Some s"
  then show "b = \<lparr>px = max 0 (min (px (getRelativeImagePos rect e s0)) (img_width (imageSize s0))),
                 py = max 0 (min (py (getRelativeImagePos rect e s0))
                                 (img_height (imageSize s0)))\<rparr>"
    using handleMouseMove_records [of rect e s0 s] assms(3) by simp
qed

text \<open>
  The witness runs the two drags of the claim through the handlers (press, move,
  release), on a 100 by 100 image: from (0,0) to (5,5) a rectangle with the points (0,0)
  and (5,5) is committed, from (0,0) to (0,1) nothing is.
\<close>

theorem rectangle_commit_witness:
  "map_option annotations (rectangleDrag ''1700000000000'' (click 50 50) (click 55 55) drawStart)
     = Some [\<lparr>ann_id = ''1700000000000'', label = ''defect'', shape_type = rectangle,
              points = [\<lparr>px = 0, py = 0\<rparr>, \<lparr>px = 5, py = 5\<rparr>], color = ''#ef4444'',
              visible = True, locked = False\<rparr>] \<and>
   map_option annotations (rectangleDrag ''1700000000000'' (click 50 50) (click 50 51) drawStart)
     = Some []"
proof -
  have a: "pendingRectStart (afterMove 50 50 cx cy) = Some \<lparr>px = 0, py = 0\<rparr>" for cx cy
    by (simp add: afterMove_simps)
  have b1: "\<lparr>px = 5, py = 5\<rparr> = (case currentMouseImagePos (afterMove 50 50 55 55) of
                                  None \<Rightarrow> \<lparr>px = 0, py = 0\<rparr> | Some p \<Rightarrow> p)"
    by (simp add: afterMove_simps)
  have b2: "\<lparr>px = 0, py = 1\<rparr> = (case currentMouseImagePos (afterMove 50 50 50 51) of
                                  None \<Rightarrow> \<lparr>px = 0, py = 0\<rparr> | Some p \<Rightarrow> p)"
    by (simp add: afterMove_simps)
  have c: "getNextColor (afterMove 50 50 55 55) = ''#ef4444''"
    by (simp add: getNextColor_def COLORS_def afterMove_simps)
  have r1: "annotations (handleMouseUp ''1700000000000'' (afterMove 50 50 55 55)) =
      [\<lparr>ann_id = ''1700000000000'', label = ''defect'', shape_type = rectangle,
              points = [\<lparr>px = 0, py = 0\<rparr>, \<lparr>px = 5, py = 5\<rparr>], color = ''#ef4444'',
              visible = True, locked = False\<rparr>]"
    using rectangle_commit [OF afterMove_simps(1) a b1, of "''1700000000000''"]
    by (simp add: c afterMove_simps(3))
  have r2: "annotations (handleMouseUp ''1700000000000'' (afterMove 50 50 50 51)) = []"
    using rectangle_commit [OF afterMove_simps(1) a b2, of "''1700000000000''"]
    by (simp add: afterMove_simps(3))
  show ?thesis
    by (simp add: rectangleDrag_eq r1 r2)
qed

text \<open>
  The claim as stated, with the pointer's own release position, fails. The image of 900
  by 900 is loaded and the rectangle tool is chosen. A press at the image position
  (899,899) followed by a move to (905,905) and the release there differs by 6 on both
  axes, yet nothing is appended: the move records the clamped position (900,900), which
  differs from the anchor by 1 only.
\<close>

theorem rectangle_release_counterexample:
  "reachable rectStart \<and> currentTool rectStart = rectangle_tool \<and>
   imageSize rectStart = \<lparr>img_width = 900, img_height = 900\<rparr> \<and>
   (\<exists>s1 s2. handleMouseDown origin_rect ''1700000000000'' (click 949 949) rectStart = Some s1 \<and>
             pendingRectStart s1 = Some \<lparr>px = 899, py = 899\<rparr> \<and>
             getRelativeImagePos origin_rect (click 955 955) s1 = \<lparr>px = 905, py = 905\<rparr> \<and>
             handleMouseMove origin_rect (click 955 955) s1 = Some s2 \<and>
             currentMouseImagePos s2 = Some \<lparr>px = 900, py = 900\<rparr>) \<and>
   (1::real) < \<bar>905 - 899\<bar> \<and>
   map_option annotations
     (rectangleDrag ''1700000000000'' (click 949 949) (click 955 955) rectStart) = Some []"
proof -
  obtain s1 s2 where
        d: "handleMouseDown origin_rect ''1700000000000'' (click 949 949) rectStart = Some s1"
    and m: "handleMouseMove origin_rect (click 955 955) s1 = Some s2"
    and e: "rectangleDrag ''1700000000000'' (click 949 949) (click 955 955) rectStart
              = Some (handleMouseUp ''1700000000000'' s2)"
    and a: "pendingRectStart s1 = Some \<lparr>px = 949 - 50, py = 949 - 50\<rparr>"
    and p: "getRelativeImagePos origin_rect (click 955 955) s1 = \<lparr>px = 955 - 50, py = 955 - 50\<rparr>"
    and t2: "currentTool s2 = rectangle_tool"
    and a2: "pendingRectStart s2 = Some \<lparr>px = 949 - 50, py = 949 - 50\<rparr>"
    and c2: "currentMouseImagePos s2 =
               Some \<lparr>px = max 0 (min (955 - 50) 900), py = max 0 (min (955 - 50) 900)\<rparr>"
    and n2: "annotations s2 = annotations rectStart"
    using rectangleDrag_ready [OF ready_loaded(4) ready_loaded(7), of "''1700000000000''"
            949 949 955 955]
    by blast
  have up: "annotations (handleMouseUp ''1700000000000'' s2) = []"
    by (simp add: handleMouseUp_def Let_def t2 a2 c2 n2 ready_loaded(5))
  have i: "imageSize rectStart = \<lparr>img_width = 900, img_height = 900\<rparr>"
    using ready_loaded(4) by (simp add: ready_def exampleImage_def)
  have x: "\<exists>s1 s2. handleMouseDown origin_rect ''1700000000000'' (click 949 949) rectStart = Some s1 \<and>
             pendingRectStart s1 = Some \<lparr>px = 899, py = 899\<rparr> \<and>
             getRelativeImagePos origin_rect (click 955 955) s1 = \<lparr>px = 905, py = 905\<rparr> \<and>
             handleMouseMove origin_rect (click 955 955) s1 = Some s2 \<and>
             currentMouseImagePos s2 = Some \<lparr>px = 900, py = 900\<rparr>"
    using d a p m c2 by (intro exI [of _ s1] exI [of _ s2]) simp
  show ?thesis
    using x by (simp add: ready_loaded(6,7) i e up)
qed

subsection \<open>Polygon tool\<close>

lemma sqrt_less_iff_sq: "0 \<le> y \<Longrightarrow> (sqrt x < y) = (x < y ^ 2)"
  by (metis real_sqrt_less_iff real_sqrt_abs abs_of_nonneg)

lemma pos_drawing:
  "drawing s \<Longrightarrow> getRelativeImagePos origin_rect (click cx cy) s = \<lparr>px = cx - 50, py = cy - 50\<rparr>"
  by (simp add: drawing_def getRelativeImagePos_def getMousePos_def origin_rect_def click_simps
        screenToImage_def Let_def)

lemma handleMouseUp_polygon:
  "pendingRectStart s = None \<Longrightarrow>
   handleMouseUp now s = s\<lparr>isDragging := False, dragStart := None, activeVertex := None\<rparr>"
  by (simp add: handleMouseUp_def Let_def)

lemma clickAt_append:
  assumes "drawing s"
      and "length (pendingPoly s) < 3"
  shows "\<exists>s'. clickAt now (click cx cy) s = Some s' \<and> drawing s' \<and>
           pendingPoly s' = pendingPoly s @ [\<lparr>px = cx - 50, py = cy - 50\<rparr>]"
proof -
  have pos: "getRelativeImagePos origin_rect (click cx cy) s = \<lparr>px = cx - 50, py = cy - 50\<rparr>"
    using assms(1) by (rule pos_drawing)
  show ?thesis
    using assms
    by (simp add: drawing_def clickAt_def handleMouseDown_def polygonClick_def
          snapshotHistory_def handleMouseUp_def pos click_simps Let_def)
qed

lemma three_clicks:
  "\<exists>s3. clicksAt now [click 50 50, click 60 50, click 60 60] polyStart = Some s3 \<and> drawing s3 \<and>
     pendingPoly s3 = [\<lparr>px = 0, py = 0\<rparr>, \<lparr>px = 10, py = 0\<rparr>, \<lparr>px = 10, py = 10\<rparr>]"
proof -
  have d0: "drawing polyStart" and p0: "pendingPoly polyStart = []"
    by (simp_all add: drawing_def polyStart_def initialState_def)
  obtain s1 where s1: "clickAt now (click 50 50) polyStart = Some s1" "drawing s1"
      "pendingPoly s1 = [\<lparr>px = 0, py = 0\<rparr>]"
    using clickAt_append [OF d0, of now 50 50] p0 by auto
  obtain s2 where s2: "clickAt now (click 60 50) s1 = Some s2" "drawing s2"
      "pendingPoly s2 = [\<lparr>px = 0, py = 0\<rparr>, \<lparr>px = 10, py = 0\<rparr>]"
    using clickAt_append [OF s1(2), of now 60 50] s1(3) by auto
  obtain s3 where s3: "clickAt now (click 60 60) s2 = Some s3" "drawing s3"
      "pendingPoly s3 = [\<lparr>px = 0, py = 0\<rparr>, \<lparr>px = 10, py = 0\<rparr>, \<lparr>px = 10, py = 10\<rparr>]"
    using clickAt_append [OF s2(2), of now 60 60] s2(3) by auto
  show ?thesis
    using s1 s2 s3 by simp
qed


text \<open>
  C7. With the polygon tool (space not held, left button, scale other than zero), let
  \<open>p\<close> be the image position of a pointer down. When there are at least 3 pending points
  and \<open>p\<close> is strictly closer than 15 / scale to the first of them, a polygon with
  exactly the pending points is appended and the pending list is emptied; in every
  other case the annotations are unchanged and \<open>p\<close> is appended to the pending list.
\<close>

theorem polygon_click:
  assumes "currentTool s = polygon_tool" and "\<not> isSpacePressed s" and "button e = 0"
      and "scale (transform s) \<noteq> 0"
      and "p = getRelativeImagePos rect e s"
  shows "\<exists>s'. handleMouseDown rect now e s = Some s' \<and>
           (if 3 \<le> length (pendingPoly s) \<and>
               sqrt ((px p - px (pendingPoly s ! 0)) ^ 2 + (py p - py (pendingPoly s ! 0)) ^ 2)
                 < 15 / scale (transform s)
            then annotations s' =
                   annotations s @ [\<lparr>ann_id = now, label = ''defect'', shape_type = polygon,
                                      points = pendingPoly s, color = getNextColor s,
                                      visible = True, locked = False\<rparr>] \<and>
                 pendingPoly s' = []
            else annotations s' = annotations s \<and> pendingPoly s' = pendingPoly s @ [p])"
  using assms
  by (simp add: handleMouseDown_def polygonClick_def handleShapeComplete_def snapshotHistory_def
        Let_def)


text \<open>
  The witness clicks at (0,0), (10,0) and (10,10); a fourth pointer down at (3,4), at
  distance 5 from the first point, commits the 3-point polygon, while one at (0,20), at
  distance 20, appends a fourth pending point.
\<close>

theorem polygon_click_witness:
  "\<exists>s3. clicksAt ''1700000000000'' [click 50 50, click 60 50, click 60 60] polyStart = Some s3 \<and>
     (\<exists>s4. handleMouseDown origin_rect ''1700000000001'' (click 53 54) s3 = Some s4 \<and>
        map points (annotations s4)
          = [[\<lparr>px = 0, py = 0\<rparr>, \<lparr>px = 10, py = 0\<rparr>, \<lparr>px = 10, py = 10\<rparr>]] \<and>
        pendingPoly s4 = []) \<and>
     (\<exists>s5. handleMouseDown origin_rect ''1700000000001'' (click 50 70) s3 = Some s5 \<and>
        annotations s5 = [] \<and>
        pendingPoly s5
          = [\<lparr>px = 0, py = 0\<rparr>, \<lparr>px = 10, py = 0\<rparr>, \<lparr>px = 10, py = 10\<rparr>, \<lparr>px = 0, py = 20\<rparr>])"
proof -
  obtain s3 where s3: "clicksAt ''1700000000000'' [click 50 50, click 60 50, click 60 60] polyStart = Some s3"
      "drawing s3"
      "pendingPoly s3 = [\<lparr>px = 0, py = 0\<rparr>, \<lparr>px = 10, py = 0\<rparr>, \<lparr>px = 10, py = 10\<rparr>]"
    using three_clicks by blast
  have tool: "currentTool s3 = polygon_tool" and sp: "\<not> isSpacePressed s3"
    and sc: "scale (transform s3) \<noteq> 0" and sc1: "scale (transform s3) = 1"
    and an: "annotations s3 = []"
    using s3(2) by (simp_all add: drawing_def)
  have near: "sqrt ((3::real) ^ 2 + 4 ^ 2) < 15"
    by (simp add: sqrt_less_iff_sq)
  have far: "\<not> sqrt ((0::real) ^ 2 + 20 ^ 2) < 15"
    by (simp add: sqrt_less_iff_sq)
  have a: "\<exists>s4. handleMouseDown origin_rect ''1700000000001'' (click 53 54) s3 = Some s4 \<and>
        map points (annotations s4)
          = [[\<lparr>px = 0, py = 0\<rparr>, \<lparr>px = 10, py = 0\<rparr>, \<lparr>px = 10, py = 10\<rparr>]] \<and>
        pendingPoly s4 = []"
    using polygon_click [where now = "''1700000000001''", OF tool sp click_simps(1) sc
            pos_drawing [OF s3(2), symmetric, of 53 54]] near
    by (auto simp add: s3(3) sc1 an)
  have b: "\<exists>s5. handleMouseDown origin_rect ''1700000000001'' (click 50 70) s3 = Some s5 \<and>
        annotations s5 = [] \<and>
        pendingPoly s5
          = [\<lparr>px = 0, py = 0\<rparr>, \<lparr>px = 10, py = 0\<rparr>, \<lparr>px = 10, py = 10\<rparr>, \<lparr>px = 0, py = 20\<rparr>]"
    using polygon_click [where now = "''1700000000001''", OF tool sp click_simps(1) sc
            pos_drawing [OF s3(2), symmetric, of 50 70]] far
    by (auto simp add: s3(3) sc1 an)
  show ?thesis
    by (rule exI [of _ s3]) (intro conjI s3(1) a b)
qed


subsection \<open>Polygon area\<close>

lemma fold_shoelace_step:
  "fold (shoelace_step pts) [0..<n] a = a + (\<Sum>i<n. shoelace_term pts i)"
  by (induction n) (simp_all add: shoelace_step_def shoelace_term_def Let_def)

lemma calculatePolygonArea_sum:
  "calculatePolygonArea pts = \<bar>\<Sum>i<length pts. shoelace_term pts i\<bar> / 2"
  by (simp add: calculatePolygonArea_def Let_def fold_shoelace_step)

lemma sum_cyclic_shift:
  fixes g :: "nat \<Rightarrow> real"
  shows "(\<Sum>i<n. g ((i + 1) mod n)) = (\<Sum>i<n. g i)"
proof (cases n)
  case 0
  then show ?thesis by simp
next
  case (Suc m)
  have "(\<Sum>i<Suc m. g ((i + 1) mod Suc m)) = (\<Sum>i<m. g ((i + 1) mod Suc m)) + g 0"
    by simp
  also have "(\<Sum>i<m. g ((i + 1) mod Suc m)) = (\<Sum>i<m. g (Suc i))"
    by (rule sum.cong) simp_all
  also have "(\<Sum>i<m. g (Suc i)) + g 0 = (\<Sum>i<Suc m. g i)"
    using sum.lessThan_Suc_shift [of g m] by simp
  finally show ?thesis using Suc by simp
qed

lemma shoelace_sum_translate:
  "(\<Sum>i<length pts. shoelace_term (map (\<lambda>p. \<lparr>px = px p + dx, py = py p + dy\<rparr>) pts) i) = (\<Sum>i<length pts. shoelace_term pts i)"
proof -
  define n where "n = length pts"
  define X where "X = (\<lambda>i. px (pts ! i))"
  define Y where "Y = (\<lambda>i. py (pts ! i))"
  have t: "shoelace_term (map (\<lambda>p. \<lparr>px = px p + dx, py = py p + dy\<rparr>) pts) i
             = shoelace_term pts i + dx * (Y ((i + 1) mod n) - Y i) + dy * (X i - X ((i + 1) mod n))"
    if "i < n" for i
  proof -
    have "(i + 1) mod n < n" using that by simp
    then show ?thesis
      using that
      by (simp add: shoelace_term_def n_def X_def Y_def algebra_simps)
  qed
  have "(\<Sum>i<n. shoelace_term (map (\<lambda>p. \<lparr>px = px p + dx, py = py p + dy\<rparr>) pts) i)
          = (\<Sum>i<n. shoelace_term pts i + dx * (Y ((i + 1) mod n) - Y i) + dy * (X i - X ((i + 1) mod n)))"
    by (rule sum.cong) (simp_all add: t)
  also have "\<dots> = (\<Sum>i<n. shoelace_term pts i)
                  + dx * ((\<Sum>i<n. Y ((i + 1) mod n)) - (\<Sum>i<n. Y i))
                  + dy * ((\<Sum>i<n. X i) - (\<Sum>i<n. X ((i + 1) mod n)))"
    by (simp add: sum.distrib sum_subtractf flip: sum_distrib_left)
  also have "\<dots> = (\<Sum>i<n. shoelace_term pts i)"
    using sum_cyclic_shift [of Y n] sum_cyclic_shift [of X n] by simp
  finally show ?thesis by (simp add: n_def)
qed

lemma shoelace_sum_rev:
  "(\<Sum>i<length pts. shoelace_term (rev pts) i) = - (\<Sum>i<length pts. shoelace_term pts i)"
proof -
  define n where "n = length pts"
  define h where "h = (\<lambda>k. shoelace_term (rev pts) (n - Suc k))"
  have idx: "n - Suc ((n - Suc ((m + 1) mod n) + 1) mod n) = m" if "m < n" for m
  proof (cases "m + 1 = n")
    case True
    then show ?thesis by simp
  next
    case False
    with that have "m + 1 < n" by simp
    then have "(m + 1) mod n = m + 1" by simp
    moreover have "n - Suc (m + 1) + 1 = n - (m + 1)" using \<open>m + 1 < n\<close> by simp
    moreover have "(n - (m + 1)) mod n = n - (m + 1)" using \<open>m + 1 < n\<close> by simp
    ultimately show ?thesis using \<open>m + 1 < n\<close> by simp
  qed
  have hm: "h ((m + 1) mod n) = - shoelace_term pts m" if "m < n" for m
  proof -
    have k: "(m + 1) mod n < n" using that by simp
    have a: "n - Suc ((m + 1) mod n) < n" using that by simp
    have b: "(n - Suc ((m + 1) mod n) + 1) mod n < n" using that by simp
    have r1: "rev pts ! (n - Suc ((m + 1) mod n)) = pts ! ((m + 1) mod n)"
      using k by (simp add: rev_nth n_def)
    have r2: "rev pts ! ((n - Suc ((m + 1) mod n) + 1) mod n) = pts ! m"
      using b idx [OF that] by (simp add: rev_nth n_def)
    show ?thesis
      using r1 r2 by (simp add: h_def shoelace_term_def n_def [symmetric])
  qed
  have "(\<Sum>i<n. shoelace_term (rev pts) i) = (\<Sum>k<n. h k)"
    unfolding h_def by (rule sum.nat_diff_reindex [symmetric])
  also have "\<dots> = (\<Sum>m<n. h ((m + 1) mod n))"
    by (rule sum_cyclic_shift [symmetric])
  also have "\<dots> = (\<Sum>m<n. - shoelace_term pts m)"
    using hm by (intro sum.cong) auto
  also have "\<dots> = - (\<Sum>m<n. shoelace_term pts m)"
    by (simp add: sum_negf)
  finally show ?thesis by (simp add: n_def)
qed

text \<open>
  C9. The area that \<open>calculatePolygonArea\<close> computes for a list of points is the same
  after adding one offset \<open>(dx, dy)\<close> to every point, and the same after reversing the
  list: the absolute value of the shoelace sum is taken, and reversal only changes the
  sign of that sum.
\<close>

theorem calculatePolygonArea_invariant:
  "calculatePolygonArea (map (\<lambda>p. \<lparr>px = px p + dx, py = py p + dy\<rparr>) pts) = calculatePolygonArea pts \<and>
   calculatePolygonArea (rev pts) = calculatePolygonArea pts"
  using shoelace_sum_translate [where pts = pts and dx = dx and dy = dy]
        shoelace_sum_rev [of pts]
  by (simp add: calculatePolygonArea_sum)


subsection \<open>Alignment\<close>









subsection \<open>Locked annotations\<close>

lemma find_distinct_id:
  assumes "distinct (map ann_id anns)" and "a \<in> set anns"
  shows "find (\<lambda>b. ann_id b = ann_id a) anns = Some a"
  using assms
proof (induction anns)
  case Nil
  then show ?case by simp
next
  case (Cons b anns)
  show ?case
  proof (cases "b = a")
    case True
    then show ?thesis by simp
  next
    case False
    with Cons.prems have ain: "a \<in> set anns" by simp
    then have "ann_id a \<in> ann_id ` set anns" by blast
    with Cons.prems have "ann_id b \<noteq> ann_id a" by auto
    then show ?thesis using Cons.IH Cons.prems ain by simp
  qed
qed

lemma hasLocked_member:
  assumes "distinct (map ann_id anns)" and "a \<in> set anns" and "locked a"
      and "ann_id a \<in> set ids"
  shows "hasLocked ids anns"
  using assms find_distinct_id [OF assms(1,2)]
  by (auto simp add: hasLocked_def list_ex_iff intro!: bexI [of _ "ann_id a"])

lemma map_keeps:
  "a \<in> set xs \<Longrightarrow> F a = a \<Longrightarrow> a \<in> set (map F xs)"
  by (metis image_eqI set_map)

lemma moveSelected_keeps:
  "a \<in> set anns \<Longrightarrow> ann_id a \<notin> set ids \<Longrightarrow> a \<in> set (moveSelected ids dx dy anns)"
  by (simp add: moveSelected_def map_keeps)

lemma handleKeyDown_annotations:
  "annotations (handleKeyDown e s) = annotations s \<or>
   (\<not> hasLocked (selectedIds s) (annotations s) \<and>
    (\<exists>dx dy. annotations (handleKeyDown e s) = moveSelected (selectedIds s) dx dy (annotations s)))"
  by (simp add: handleKeyDown_def Let_def handleCancelDraw_def handleUndoPoint_def
        snapshotHistory_def) blast

lemma handleKeyDown_locked:
  "hasLocked (selectedIds s) (annotations s) \<Longrightarrow> annotations (handleKeyDown e s) = annotations s"
  using handleKeyDown_annotations [of e s] by blast

lemma handleKeyDown_keeps:
  assumes "a \<in> set (annotations s)" and "locked a" and "distinct (map ann_id (annotations s))"
  shows "a \<in> set (annotations (handleKeyDown e s))"
proof (cases "ann_id a \<in> set (selectedIds s)")
  case True
  then have "hasLocked (selectedIds s) (annotations s)"
    using assms by (simp add: hasLocked_member)
  then show ?thesis using assms(1) by (simp add: handleKeyDown_locked)
next
  case False
  then show ?thesis
    using handleKeyDown_annotations [of e s] assms(1) by (auto intro!: moveSelected_keeps)
qed


lemma hasLocked_single:
  "hasLocked [i] anns \<Longrightarrow> \<exists>ann. find (\<lambda>b. ann_id b = i) anns = Some ann \<and> locked ann"
  by (simp add: hasLocked_def split: option.splits)

lemma replace_keeps:
  assumes "distinct (map ann_id anns)" and "a \<in> set anns" and "locked a"
      and "find (\<lambda>b. ann_id b = i) anns = Some ann" and "\<not> locked ann"
  shows "a \<in> set (map (\<lambda>b. if ann_id b = i then X b else b) anns)"
proof -
  have "ann_id a \<noteq> i"
  proof
    assume "ann_id a = i"
    then have "find (\<lambda>b. ann_id b = i) anns = Some a"
      using find_distinct_id [OF assms(1,2)] by simp
    then show False using assms(3,4,5) by simp
  qed
  then show ?thesis using assms(2) by (simp add: map_keeps)
qed

lemma vertexDrag_keeps:
  assumes "distinct (map ann_id (annotations s))" and "a \<in> set (annotations s)" and "locked a"
      and "annotations s4 = annotations s"
      and "vertexDrag av p s s4 = Some s'"
  shows "a \<in> set (annotations s')"
proof (cases "find (\<lambda>b. ann_id b = selectedIds s ! 0) (annotations s)")
  case None
  then show ?thesis using assms by (simp add: vertexDrag_def Let_def)
next
  case (Some ann)
  show ?thesis
  proof (cases "locked ann")
    case True
    then show ?thesis using assms Some by (simp add: vertexDrag_def Let_def)
  next
    case False
    note r = replace_keeps [OF assms(1,2,3) Some False]
    show ?thesis
      using assms(5) Some False r
      by (auto simp add: vertexDrag_def Let_def split: if_splits)
  qed
qed

lemma vertexDrag_locked:
  assumes "hasLocked (selectedIds s) (annotations s)" and "length (selectedIds s) = 1"
  shows "vertexDrag av p s s4 = Some s4"
proof -
  have "selectedIds s = [selectedIds s ! 0]"
    using assms(2) by (cases "selectedIds s") simp_all
  then have "hasLocked [selectedIds s ! 0] (annotations s)"
    using assms(1) by simp
  then obtain ann where "find (\<lambda>b. ann_id b = selectedIds s ! 0) (annotations s) = Some ann"
      and "locked ann"
    using hasLocked_single by blast
  then show ?thesis by (simp add: vertexDrag_def Let_def)
qed

lemma handleMouseMove_locked:
  assumes "hasLocked (selectedIds s) (annotations s)"
  shows "\<exists>s'. handleMouseMove rect e s = Some s' \<and> annotations s' = annotations s"
  using assms
  by (simp add: handleMouseMove_def Let_def hoverUpdate_keeps vertexDrag_locked)

lemma handleMouseMove_keeps:
  assumes "distinct (map ann_id (annotations s))" and "a \<in> set (annotations s)" and "locked a"
      and "handleMouseMove rect e s = Some s'"
  shows "a \<in> set (annotations s')"
proof (cases "hasLocked (selectedIds s) (annotations s)")
  case True
  then show ?thesis
    using handleMouseMove_locked [OF True, of rect e] assms(2,4) by auto
next
  case False
  then have ns: "ann_id a \<notin> set (selectedIds s)"
    using hasLocked_member [OF assms(1,2,3)] by blast
  have vd: "a \<in> set (annotations s')"
    if "vertexDrag av p s (hoverUpdate pos p s) = Some s'" for av p pos
    using vertexDrag_keeps [OF assms(1,2,3) _ that] by (simp add: hoverUpdate_keeps)
  show ?thesis
    using assms(2,4) ns vd
    by (auto simp add: handleMouseMove_def Let_def hoverUpdate_keeps moveSelected_keeps
          split: if_splits)
qed


lemma bodyClick_annotations: "annotations (bodyClick p e s) = annotations s"
  by (simp add: bodyClick_def Let_def snapshotHistory_def split: option.split)

lemma polygonClick_keeps:
  "a \<in> set (annotations s) \<Longrightarrow> a \<in> set (annotations (polygonClick now p s))"
  by (simp add: polygonClick_def Let_def snapshotHistory_def handleShapeComplete_def)

lemma vertexClick_keeps:
  assumes "distinct (map ann_id (annotations s))" and "a \<in> set (annotations s)" and "locked a"
      and "vertexClick p e s = Return (Some s')"
  shows "a \<in> set (annotations s')"
proof (cases "find (\<lambda>b. ann_id b = selectedIds s ! 0) (annotations s)")
  case None
  then show ?thesis using assms(4) by (simp add: vertexClick_def Let_def split: if_splits)
next
  case (Some ann)
  show ?thesis
  proof (cases "locked ann")
    case True
    then show ?thesis
      using assms(4) Some by (simp add: vertexClick_def Let_def split: if_splits)
  next
    case False
    note r = replace_keeps [OF assms(1,2,3) Some False]
    show ?thesis
      using assms(2,4) Some False r
      by (auto simp add: vertexClick_def Let_def snapshotHistory_def
            split: if_splits option.splits ShapeType.splits)
  qed
qed

lemma handleMouseDown_keeps:
  assumes "distinct (map ann_id (annotations s))" and "a \<in> set (annotations s)" and "locked a"
      and "handleMouseDown rect now e s = Some s'"
  shows "a \<in> set (annotations s')"
proof -
  have vc: "a \<in> set (annotations s')" if "vertexClick p e s = Return (Some s')" for p
    using vertexClick_keeps [OF assms(1,2,3) that] .
  show ?thesis
    using assms(2,4) vc
    by (auto simp add: handleMouseDown_def Let_def bodyClick_annotations polygonClick_keeps
          snapshotHistory_def split: if_splits ToolType.splits flow.splits)
qed

lemma handleKeyDown_App_annotations:
  assumes "\<not> isShortcutPressed e (keyMap c UNDO)" and "\<not> isShortcutPressed e (keyMap c REDO)"
  shows "annotations (handleKeyDown_App win e c) =
           (if \<not> target_is_input e \<and> isShortcutPressed e (keyMap c DELETE)
               \<and> length (selectedIds c) > 0 \<and> \<not> hasLocked (selectedIds c) (annotations c)
            then filter (\<lambda>a. ann_id a \<notin> set (selectedIds c)) (annotations c)
            else annotations c)"
  using assms
  by (simp add: handleKeyDown_App_def Let_def handleDelete_def snapshotHistory_def
        handleResetView_def if_distrib [of annotations])

lemma handleKeyDown_App_keeps:
  assumes "distinct (map ann_id (annotations c))" and "a \<in> set (annotations c)" and "locked a"
      and "\<not> isShortcutPressed e (keyMap c UNDO)" and "\<not> isShortcutPressed e (keyMap c REDO)"
  shows "a \<in> set (annotations (handleKeyDown_App win e c))"
  using assms(2) hasLocked_member [OF assms(1,2,3)]
  by (auto simp add: handleKeyDown_App_annotations [OF assms(4,5)])


lemma pressed_default:
  "isShortcutPressed (keyPress ''ArrowLeft'') (DEFAULT_KEY_MAP a) = (a = NUDGE_LEFT)"
  by (cases a) (simp_all add: isShortcutPressed_def DEFAULT_KEY_MAP_def keyPress_def Let_def
        toLowerCase_def lower_char_def)

lemma pressed_delete:
  "isShortcutPressed (keyPress ''Delete'') (DEFAULT_KEY_MAP a) = (a = DELETE)"
  by (cases a) (simp_all add: isShortcutPressed_def DEFAULT_KEY_MAP_def keyPress_def Let_def
        toLowerCase_def lower_char_def)

subsection \<open>The selection of a reachable state holds no locked annotation\<close>

lemma lockedAt_cong:
  assumes "map ann_id xs = map ann_id ys" and "map locked xs = map locked ys"
  shows "(case find (\<lambda>a. ann_id a = i) xs of None \<Rightarrow> False | Some a \<Rightarrow> locked a)
       = (case find (\<lambda>a. ann_id a = i) ys of None \<Rightarrow> False | Some a \<Rightarrow> locked a)"
proof -
  have "length xs = length ys"
    using assms(1) by (rule map_eq_imp_length_eq)
  then show ?thesis
    using assms by (induction xs ys rule: list_induct2) auto
qed

lemma hasLocked_cong:
  assumes "map ann_id xs = map ann_id ys" and "map locked xs = map locked ys"
  shows "hasLocked ids xs = hasLocked ids ys"
  using lockedAt_cong [OF assms] by (simp add: hasLocked_def)

lemma hasLocked_mono:
  "set ids' \<subseteq> set ids \<Longrightarrow> hasLocked ids' anns \<Longrightarrow> hasLocked ids anns"
  by (auto simp add: hasLocked_def list_ex_iff)

lemma hasLocked_append:
  "hasLocked (ids @ ids') anns = (hasLocked ids anns \<or> hasLocked ids' anns)"
  by (auto simp add: hasLocked_def list_ex_iff)

lemma hasLocked_Nil: "\<not> hasLocked [] anns"
  by (simp add: hasLocked_def)

lemma hasLocked_no_annotations: "\<not> hasLocked ids []"
  by (simp add: hasLocked_def list_ex_iff)

lemma hasLocked_unlocked_member:
  assumes "distinct (map ann_id anns)" and "a \<in> set anns" and "\<not> locked a"
  shows "\<not> hasLocked [ann_id a] anns"
  using find_distinct_id [OF assms(1,2)] assms(3) by (simp add: hasLocked_def)

lemma find_fresh:
  "now \<notin> set (map ann_id anns) \<Longrightarrow> find (\<lambda>a. ann_id a = now) (anns @ [n]) = find (\<lambda>a. ann_id a = now) [n]"
  by (induction anns) auto

lemma hasLocked_new:
  assumes "now \<notin> set (map ann_id anns)" and "ann_id n = now" and "\<not> locked n"
  shows "\<not> hasLocked [now] (anns @ [n])"
  using find_fresh [OF assms(1), of n] assms(2,3) by (simp add: hasLocked_def)

lemma hasLocked_filter:
  "\<not> hasLocked ids anns \<Longrightarrow> \<not> hasLocked (filter P ids) anns"
  using hasLocked_mono [of "filter P ids" ids anns] by auto

text \<open>A rewrite of the collection that keeps every id and every lock.\<close>

lemma unlocked_rewrite:
  assumes "distinct (map ann_id anns)" and "\<not> hasLocked ids anns"
      and "map ann_id anns' = map ann_id anns" and "map locked anns' = map locked anns"
  shows "distinct (map ann_id anns') \<and> \<not> hasLocked ids anns'"
  using assms hasLocked_cong [OF assms(3,4), of ids] by simp

lemma moveSelected_ids:
  "map ann_id (moveSelected ids dx dy anns) = map ann_id anns"
  "map locked (moveSelected ids dx dy anns) = map locked anns"
  by (simp_all add: moveSelected_def)

lemma appInvariant_cong:
  "annotations s' = annotations s \<Longrightarrow> selectedIds s' = selectedIds s \<Longrightarrow>
   history s' = history s \<Longrightarrow> appInvariant s' = appInvariant s"
  by (simp add: appInvariant_def selectionUnlocked_def historyDistinct_def)

lemma appInvariant_initial: "appInvariant initialState"
  by (simp add: appInvariant_def selectionUnlocked_def historyDistinct_def initialState_def
        hasLocked_Nil)

lemma appInvariant_snapshot:
  assumes "appInvariant c" and "appInvariant s"
  shows "appInvariant (snapshotHistory act c s)"
  using assms
  by (simp add: appInvariant_def selectionUnlocked_def historyDistinct_def snapshotHistory_def)

lemma appInvariant_undo:
  assumes "appInvariant c" and "appInvariant s"
  shows "appInvariant (handleUndo c s)"
proof (cases "past (history c) = []")
  case True
  then show ?thesis using assms(2) by (simp add: handleUndo_def)
next
  case False
  then have l: "last (past (history c)) \<in> set (past (history c))" by simp
  have "set (butlast (past (history c))) \<subseteq> set (past (history c))"
    by (auto dest: in_set_butlastD)
  then show ?thesis
    using assms(1) False l
    by (auto simp add: appInvariant_def selectionUnlocked_def historyDistinct_def handleUndo_def
          Let_def hasLocked_Nil list_all_iff dest: in_set_butlastD)
qed

lemma appInvariant_redo:
  assumes "appInvariant c" and "appInvariant s"
  shows "appInvariant (handleRedo c s)"
proof (cases "future (history c) = []")
  case True
  then show ?thesis using assms(2) by (simp add: handleRedo_def)
next
  case False
  then have l: "hd (future (history c)) \<in> set (future (history c))" by simp
  show ?thesis
    using assms(1) False l
    by (auto simp add: appInvariant_def selectionUnlocked_def historyDistinct_def handleRedo_def
          Let_def hasLocked_Nil list_all_iff dest: list.set_sel(2))
qed

lemma appInvariant_delete:
  assumes "appInvariant c" and "appInvariant s"
  shows "appInvariant (handleDelete ids c s)"
  using assms
  by (simp add: appInvariant_def selectionUnlocked_def historyDistinct_def handleDelete_def
        snapshotHistory_def Let_def hasLocked_Nil distinct_map_filter)

lemma appInvariant_update:
  "appInvariant (s\<lparr>currentTool := x1\<rparr>) = appInvariant s"
  "appInvariant (s\<lparr>transform := x2\<rparr>) = appInvariant s"
  "appInvariant (s\<lparr>canvasPadding := x3\<rparr>) = appInvariant s"
  "appInvariant (s\<lparr>keyMap := x4\<rparr>) = appInvariant s"
  "appInvariant (s\<lparr>labelPopup := x5\<rparr>) = appInvariant s"
  "appInvariant (s\<lparr>imageSize := x6\<rparr>) = appInvariant s"
  "appInvariant (s\<lparr>isDragging := x7\<rparr>) = appInvariant s"
  "appInvariant (s\<lparr>dragStart := x8\<rparr>) = appInvariant s"
  "appInvariant (s\<lparr>currentMouseImagePos := x9\<rparr>) = appInvariant s"
  "appInvariant (s\<lparr>isHoveringStartPoint := x10\<rparr>) = appInvariant s"
  "appInvariant (s\<lparr>hoveredEdge := x11\<rparr>) = appInvariant s"
  "appInvariant (s\<lparr>hoveredAnnotationId := x12\<rparr>) = appInvariant s"
  "appInvariant (s\<lparr>tooltipPos := x13\<rparr>) = appInvariant s"
  "appInvariant (s\<lparr>pendingPoly := x14\<rparr>) = appInvariant s"
  "appInvariant (s\<lparr>pendingRectStart := x15\<rparr>) = appInvariant s"
  "appInvariant (s\<lparr>activeVertex := x16\<rparr>) = appInvariant s"
  "appInvariant (s\<lparr>isSpacePressed := x17\<rparr>) = appInvariant s"
  by (simp_all add: appInvariant_def selectionUnlocked_def historyDistinct_def)

lemma appInvariant_rewrite:
  assumes "appInvariant s" and "map ann_id anns = map ann_id (annotations s)"
      and "map locked anns = map locked (annotations s)"
  shows "appInvariant (s\<lparr>annotations := anns\<rparr>)"
  using assms hasLocked_cong [OF assms(2,3), of "selectedIds s"]
  by (simp add: appInvariant_def selectionUnlocked_def historyDistinct_def)

lemma appInvariant_select:
  assumes "appInvariant s" and "\<not> hasLocked ids (annotations s)"
  shows "appInvariant (s\<lparr>selectedIds := ids\<rparr>)"
  using assms by (simp add: appInvariant_def selectionUnlocked_def historyDistinct_def)

lemma appInvariant_create:
  assumes "appInvariant s" and "now \<notin> set (map ann_id (annotations s))"
      and "ann_id n = now" and "\<not> locked n"
  shows "appInvariant (s\<lparr>annotations := annotations s @ [n], selectedIds := [now]\<rparr>)"
  using assms hasLocked_new [OF assms(2,3,4)]
  by (simp add: appInvariant_def selectionUnlocked_def historyDistinct_def)

lemma appInvariant_facts:
  assumes "appInvariant s"
  shows "distinct (map ann_id (annotations s))" "\<not> hasLocked (selectedIds s) (annotations s)"
  using assms by (simp_all add: appInvariant_def selectionUnlocked_def)

text \<open>Selecting or deselecting an unlocked member, as the canvas and the sidebar do.\<close>

lemma appInvariant_toggle_member:
  assumes "appInvariant s" and "ann \<in> set (annotations s)" and "\<not> locked ann"
  shows "appInvariant (s\<lparr>selectedIds := filter (\<lambda>i. i \<noteq> ann_id ann) (selectedIds s)\<rparr>)"
        "appInvariant (s\<lparr>selectedIds := selectedIds s @ [ann_id ann]\<rparr>)"
        "appInvariant (s\<lparr>selectedIds := [ann_id ann]\<rparr>)"
proof -
  note f = appInvariant_facts [OF assms(1)]
  have one: "\<not> hasLocked [ann_id ann] (annotations s)"
    using hasLocked_unlocked_member [OF f(1) assms(2,3)] .
  show "appInvariant (s\<lparr>selectedIds := filter (\<lambda>i. i \<noteq> ann_id ann) (selectedIds s)\<rparr>)"
    using assms(1) f(2) by (intro appInvariant_select hasLocked_filter)
  show "appInvariant (s\<lparr>selectedIds := selectedIds s @ [ann_id ann]\<rparr>)"
    using assms(1) f(2) one by (intro appInvariant_select) (simp_all add: hasLocked_append)
  show "appInvariant (s\<lparr>selectedIds := [ann_id ann]\<rparr>)"
    using assms(1) one by (intro appInvariant_select)
qed

lemma appInvariant_sidebarSelect:
  assumes "appInvariant s" and "ann \<in> set (annotations s)"
  shows "appInvariant (sidebarSelect ann ctrl meta s)"
  using assms appInvariant_toggle_member [OF assms(1,2)]
  by (simp add: sidebarSelect_def)

lemma appInvariant_handleEditLabel:
  assumes "appInvariant s" and "ann \<in> set (annotations s)" and "\<not> locked ann"
  shows "appInvariant (handleEditLabel (ann_id ann) r s s)"
  using appInvariant_toggle_member(3) [OF assms]
  by (simp add: handleEditLabel_def appInvariant_def selectionUnlocked_def historyDistinct_def)

lemma appInvariant_handleKeyUp: "appInvariant s \<Longrightarrow> appInvariant (handleKeyUp e s)"
  by (simp add: handleKeyUp_def appInvariant_update)

lemma appInvariant_handleResetView:
  "appInvariant s \<Longrightarrow> appInvariant (handleResetView win c s)"
  by (simp add: handleResetView_def Let_def appInvariant_update)

lemma appInvariant_handleImageLoad: "appInvariant (handleImageLoad win img c s)"
  by (simp add: handleImageLoad_def Let_def appInvariant_def selectionUnlocked_def
        historyDistinct_def hasLocked_no_annotations)

lemma appInvariant_handleToggleVisible:
  assumes "appInvariant s"
  shows "appInvariant (handleToggleVisible ident c s)"
  unfolding handleToggleVisible_def
  by (rule appInvariant_rewrite [OF assms]) simp_all

text \<open>Locking or unlocking by id, away from the selected ids.\<close>

lemma lockedAt_toggle:
  "i \<noteq> ident \<Longrightarrow>
   (case find (\<lambda>a. ann_id a = i)
           (map (\<lambda>a. if ann_id a = ident then a\<lparr>locked := \<not> locked a\<rparr> else a) anns) of
      None \<Rightarrow> False | Some a \<Rightarrow> locked a)
   = (case find (\<lambda>a. ann_id a = i) anns of None \<Rightarrow> False | Some a \<Rightarrow> locked a)"
  by (induction anns) auto

lemma hasLocked_toggle:
  assumes "ident \<notin> set ids"
  shows "hasLocked ids (map (\<lambda>a. if ann_id a = ident then a\<lparr>locked := \<not> locked a\<rparr> else a) anns)
           = hasLocked ids anns"
proof -
  have "\<forall>i\<in>set ids. i \<noteq> ident" using assms by blast
  then show ?thesis
    by (simp add: hasLocked_def list_ex_iff lockedAt_toggle)
qed

lemma appInvariant_handleToggleLock:
  assumes "appInvariant s"
  shows "appInvariant (handleToggleLock ident s s)"
proof -
  note f = appInvariant_facts [OF assms]
  let ?anns = "map (\<lambda>a. if ann_id a = ident then a\<lparr>locked := \<not> locked a\<rparr> else a) (annotations s)"
  have ids: "map ann_id ?anns = map ann_id (annotations s)" by simp
  have a: "\<not> hasLocked (filter (\<lambda>sid. sid \<noteq> ident) (selectedIds s)) ?anns"
    using hasLocked_filter [OF f(2)] by (simp add: hasLocked_toggle)
  have b: "ident \<notin> set (selectedIds s) \<Longrightarrow> \<not> hasLocked (selectedIds s) ?anns"
    using f(2) by (simp add: hasLocked_toggle)
  show ?thesis
    using assms f(1) a b ids
    by (simp add: handleToggleLock_def Let_def appInvariant_def selectionUnlocked_def
          historyDistinct_def del: map_map)
qed

lemma appInvariant_handleLabelSelect:
  assumes "appInvariant s"
  shows "appInvariant (handleLabelSelect col k s s)"
proof -
  have "appInvariant
          ((snapshotHistory action_change_label s s)
             \<lparr>annotations := map (\<lambda>ann. if ann_id ann = ident
                                         then ann\<lparr>label := k, color := col k\<rparr> else ann)
                                  (annotations (snapshotHistory action_change_label s s))\<rparr>)"
    for ident
    by (rule appInvariant_rewrite [OF appInvariant_snapshot [OF assms assms]]) simp_all
  then show ?thesis
    using assms
    by (simp add: handleLabelSelect_def Let_def appInvariant_update split: option.split)
qed

lemma moveAnnotation_ids:
  "ann_id (moveAnnotation a dx dy) = ann_id a" "locked (moveAnnotation a dx dy) = locked a"
  by (simp_all add: moveAnnotation_def)

lemma appInvariant_if:
  "appInvariant x \<Longrightarrow> appInvariant y \<Longrightarrow> appInvariant (if b then x else y)"
  by simp

lemma align_map_ids:
  "map ann_id (map (\<lambda>ann. if P ann then ann else moveAnnotation ann (DX ann) (DY ann)) xs)
     = map ann_id xs"
  "map locked (map (\<lambda>ann. if P ann then ann else moveAnnotation ann (DX ann) (DY ann)) xs)
     = map locked xs"
  by (simp_all add: moveAnnotation_ids)

lemma appInvariant_handleAlign:
  assumes "appInvariant s"
  shows "appInvariant (handleAlign t s s)"
proof -
  have snap: "appInvariant (snapshotHistory action_align s s)"
    by (rule appInvariant_snapshot [OF assms assms])
  have an: "annotations (snapshotHistory action_align s s) = annotations s"
    by (simp add: snapshotHistory_def)
  show ?thesis
    unfolding handleAlign_def Let_def
    apply (rule appInvariant_if)
     apply (rule assms)
    apply (rule appInvariant_rewrite [OF snap])
     apply (simp only: an)
     apply (rule align_map_ids)
    apply (simp only: an)
    apply (rule align_map_ids)
    done
qed

lemma update_moveAnnotation_ids:
  "map ann_id (xs[i := moveAnnotation (xs ! i) dx dy]) = map ann_id xs"
  "map locked (xs[i := moveAnnotation (xs ! i) dx dy]) = map locked xs"
proof -
  have "map f (xs[i := moveAnnotation (xs ! i) dx dy]) = map f xs"
    if "f (moveAnnotation (xs ! i) dx dy) = f (xs ! i)" for f :: "Annotation \<Rightarrow> 'b"
  proof (cases "i < length xs")
    case True
    have "(map f xs)[i := f (xs ! i)] = map f xs"
      using True by (simp add: list_update_same_conv)
    then show ?thesis by (simp add: map_update that)
  next
    case False
    then have "xs[i := moveAnnotation (xs ! i) dx dy] = xs"
      by (intro list_update_beyond) simp
    then show ?thesis by simp
  qed
  from this [of ann_id] this [of locked]
  show "map ann_id (xs[i := moveAnnotation (xs ! i) dx dy]) = map ann_id xs"
    and "map locked (xs[i := moveAnnotation (xs ! i) dx dy]) = map locked xs"
    by (simp_all add: moveAnnotation_ids)
qed

lemma distribute_fold_ids:
  "map ann_id (fold (\<lambda>entry newAnns.
        case findIndex (\<lambda>a. ann_id a = ann_id (snd entry)) newAnns of
          None \<Rightarrow> newAnns
        | Some annIndex \<Rightarrow>
            newAnns[annIndex := moveAnnotation (newAnns ! annIndex) (DX entry) (DY entry)])
      es anns) = map ann_id anns \<and>
   map locked (fold (\<lambda>entry newAnns.
        case findIndex (\<lambda>a. ann_id a = ann_id (snd entry)) newAnns of
          None \<Rightarrow> newAnns
        | Some annIndex \<Rightarrow>
            newAnns[annIndex := moveAnnotation (newAnns ! annIndex) (DX entry) (DY entry)])
      es anns) = map locked anns"
proof (induction es arbitrary: anns)
  case Nil
  show ?case by simp
next
  case (Cons e es)
  show ?case
    by (cases "findIndex (\<lambda>a. ann_id a = ann_id (snd e)) anns")
       (simp_all add: Cons.IH update_moveAnnotation_ids)
qed

lemma appInvariant_handleDistribute:
  assumes "appInvariant s"
  shows "appInvariant (handleDistribute t s s)"
proof -
  have snap: "appInvariant (snapshotHistory action_distribute s s)"
    by (rule appInvariant_snapshot [OF assms assms])
  have an: "annotations (snapshotHistory action_distribute s s) = annotations s"
    by (simp add: snapshotHistory_def)
  show ?thesis
    unfolding handleDistribute_def Let_def
    apply (rule appInvariant_if)
     apply (rule assms)
    apply (rule appInvariant_rewrite [OF snap])
     apply (simp only: an)
     apply (rule distribute_fold_ids [THEN conjunct1])
    apply (simp only: an)
    apply (rule distribute_fold_ids [THEN conjunct2])
    done
qed

lemma appInvariant_handleKeyDown_App:
  assumes "appInvariant c"
  shows "appInvariant (handleKeyDown_App win e c)"
proof -
  have d: "appInvariant (handleDelete ids c s)" if "appInvariant s" for ids s
    using appInvariant_delete [OF assms that] .
  have u: "appInvariant (handleUndo c s)" if "appInvariant s" for s
    using appInvariant_undo [OF assms that] .
  have r: "appInvariant (handleRedo c s)" if "appInvariant s" for s
    using appInvariant_redo [OF assms that] .
  show ?thesis
    unfolding handleKeyDown_App_def Let_def
    by (intro appInvariant_if d u r appInvariant_handleResetView assms
          appInvariant_update [THEN iffD2])
qed

text \<open>Replacing the points of the shape that \<open>find\<close> gives for an id.\<close>

lemma find_SomeD:
  "find P xs = Some x \<Longrightarrow> P x \<and> x \<in> set xs"
  by (auto simp add: find_Some_iff)

lemma replace_ids:
  assumes "distinct (map ann_id anns)" and "find (\<lambda>b. ann_id b = i) anns = Some ann"
  shows "map ann_id (map (\<lambda>a. if ann_id a = i then ann\<lparr>points := P\<rparr> else a) anns) = map ann_id anns"
    and "map locked (map (\<lambda>a. if ann_id a = i then ann\<lparr>points := P\<rparr> else a) anns) = map locked anns"
proof -
  note f = find_SomeD [OF assms(2)]
  have "a = ann" if "a \<in> set anns" and "ann_id a = i" for a
    using find_distinct_id [OF assms(1) that(1)] that(2) assms(2) by simp
  then show "map ann_id (map (\<lambda>a. if ann_id a = i then ann\<lparr>points := P\<rparr> else a) anns) = map ann_id anns"
    and "map locked (map (\<lambda>a. if ann_id a = i then ann\<lparr>points := P\<rparr> else a) anns) = map locked anns"
    using f by auto
qed

lemma points_only_ids:
  "map ann_id (map (\<lambda>a. if ann_id a = i then a\<lparr>points := P\<rparr> else a) anns) = map ann_id anns"
  "map locked (map (\<lambda>a. if ann_id a = i then a\<lparr>points := P\<rparr> else a) anns) = map locked anns"
  by simp_all

lemma appInvariant_handleKeyDown:
  assumes "appInvariant s"
  shows "appInvariant (handleKeyDown e s)"
proof -
  have s1: "appInvariant (if b then s\<lparr>isSpacePressed := True\<rparr> else s)" for b
    using assms by (simp add: appInvariant_update)
  have snap: "appInvariant (snapshotHistory action_nudge s s1)" if "appInvariant s1" for s1
    by (rule appInvariant_snapshot [OF assms that])
  have nudge: "appInvariant ((snapshotHistory action_nudge s s1)
                   \<lparr>annotations := moveSelected (selectedIds s) dx dy (annotations s)\<rparr>)"
    if "appInvariant s1" and "annotations s1 = annotations s" for s1 dx dy
    by (rule appInvariant_rewrite [OF snap [OF that(1)]])
       (simp_all add: moveSelected_ids snapshotHistory_def that(2))
  have an: "annotations (if b then s\<lparr>isSpacePressed := True\<rparr> else s) = annotations s" for b
    by simp
  show ?thesis
    unfolding handleKeyDown_def Let_def handleCancelDraw_def handleUndoPoint_def
    by (intro appInvariant_if assms s1 nudge an appInvariant_update [THEN iffD2])
qed

lemma appInvariant_vertexChange:
  assumes "appInvariant s" and "find (\<lambda>b. ann_id b = i) (annotations s) = Some ann"
      and "annotations s4 = annotations s" and "appInvariant s4"
  shows "appInvariant (s4\<lparr>annotations :=
            map (\<lambda>a. if ann_id a = i then ann\<lparr>points := P\<rparr> else a) (annotations s)\<rparr>)"
  by (rule appInvariant_rewrite [OF assms(4)])
     (simp_all only: assms(3) replace_ids [OF appInvariant_facts(1) [OF assms(1)] assms(2)])

lemma appInvariant_vertexDrag:
  assumes "appInvariant s" and "annotations s4 = annotations s" and "appInvariant s4"
      and "vertexDrag av p s s4 = Some s'"
  shows "appInvariant s'"
proof (cases "find (\<lambda>a. ann_id a = selectedIds s ! 0) (annotations s)")
  case None
  then show ?thesis using assms(3,4) by (simp add: vertexDrag_def Let_def)
next
  case (Some ann)
  note vc = appInvariant_vertexChange [OF assms(1) Some assms(2,3)]
  show ?thesis
    using assms(3,4) Some vc
    by (auto simp add: vertexDrag_def Let_def split: if_splits)
qed

lemma appInvariant_hoverUpdate:
  "appInvariant (hoverUpdate pos p s) = appInvariant s"
  by (rule appInvariant_cong) (simp_all add: hoverUpdate_keeps)

lemma appInvariant_handleMouseMove:
  assumes "appInvariant s" and "handleMouseMove rect e s = Some s'"
  shows "appInvariant s'"
proof -
  have h: "appInvariant (hoverUpdate pos p s)" for pos p
    using assms(1) by (simp add: appInvariant_hoverUpdate)
  have vd: "appInvariant s'" if "vertexDrag av p s (hoverUpdate pos p s) = Some s'" for av p pos
    using appInvariant_vertexDrag [OF assms(1) _ h that] by (simp add: hoverUpdate_keeps)
  have mv: "appInvariant ((hoverUpdate pos p s)
              \<lparr>annotations := moveSelected (selectedIds s) dx dy (annotations s)\<rparr>)" for pos p dx dy
    by (rule appInvariant_rewrite [OF h]) (simp_all add: moveSelected_ids hoverUpdate_keeps)
  show ?thesis
    using assms(2) h vd mv
    by (auto simp add: handleMouseMove_def Let_def appInvariant_update split: if_splits)
qed

lemma appInvariant_handleMouseUp:
  assumes "appInvariant s" and "now \<notin> set (map ann_id (annotations s))"
  shows "appInvariant (handleMouseUp now s)"
proof -
  let ?s1 = "s\<lparr>isDragging := False, dragStart := None, activeVertex := None\<rparr>"
  have s1: "appInvariant ?s1"
    using assms(1) by (simp add: appInvariant_update)
  have c: "appInvariant (?s1\<lparr>annotations := annotations s @ [n], selectedIds := [now]\<rparr>)"
    if "ann_id n = now" and "\<not> locked n" for n
    using appInvariant_create [OF s1 _ that] assms(2) by simp
  show ?thesis
    using s1 c
    by (simp add: handleMouseUp_def Let_def handleShapeComplete_def appInvariant_update)
qed

lemma appInvariant_polygonClick:
  assumes "appInvariant s" and "now \<notin> set (map ann_id (annotations s))"
  shows "appInvariant (polygonClick now p s)"
proof -
  have snap: "appInvariant (snapshotHistory action_create_polygon s s)"
    by (rule appInvariant_snapshot [OF assms(1) assms(1)])
  have an: "annotations (snapshotHistory action_create_polygon s s) = annotations s"
    by (simp add: snapshotHistory_def)
  have fresh: "now \<notin> set (map ann_id (annotations (snapshotHistory action_create_polygon s s)))"
    using assms(2) by (simp add: an)
  have c1: "appInvariant ((snapshotHistory action_create_polygon s s)
              \<lparr>annotations := annotations s @ [n], selectedIds := [now]\<rparr>)"
    if "ann_id n = now" and "\<not> locked n" for n
    using appInvariant_create [OF snap fresh that] by (simp add: an)
  have c2: "appInvariant (s\<lparr>annotations := annotations s @ [n], selectedIds := [now]\<rparr>)"
    if "ann_id n = now" and "\<not> locked n" for n
    using appInvariant_create [OF assms that] .
  show ?thesis
  proof (cases "length (pendingPoly s) = 0")
    case True
    then show ?thesis
      using snap c1
      by (simp add: polygonClick_def Let_def handleShapeComplete_def appInvariant_update)
  next
    case False
    then show ?thesis
      using assms(1) c2
      by (simp add: polygonClick_def Let_def handleShapeComplete_def appInvariant_update)
  qed
qed

lemma appInvariant_bodyClick:
  assumes "appInvariant s"
  shows "appInvariant (bodyClick p e s)"
proof (cases "find (\<lambda>ann. visible ann \<and> \<not> locked ann \<and> bboxHit p (5 / scale (transform s)) ann)
               (rev (annotations s))")
  case None
  have "appInvariant (s\<lparr>selectedIds := []\<rparr>)"
    using assms by (intro appInvariant_select) (simp_all add: hasLocked_Nil)
  then show ?thesis
    using None assms by (simp add: bodyClick_def)
next
  case (Some ann)
  from find_SomeD [OF Some] have m: "ann \<in> set (annotations s)" and u: "\<not> locked ann"
    by simp_all
  note t = appInvariant_toggle_member [OF assms m u]
  have "appInvariant (snapshotHistory action_move s s1)" if "appInvariant s1" for s1
    by (rule appInvariant_snapshot [OF assms that])
  then show ?thesis
    using Some assms t
    by (simp add: bodyClick_def Let_def appInvariant_update)
qed

lemma appInvariant_vertexClick:
  assumes "appInvariant s" and "vertexClick p e s = Return (Some s')"
  shows "appInvariant s'"
proof (cases "find (\<lambda>a. ann_id a = selectedIds s ! 0) (annotations s)")
  case None
  then show ?thesis using assms(2) by (simp add: vertexClick_def Let_def split: if_splits)
next
  case (Some ann)
  have snap: "appInvariant (snapshotHistory act s s)" for act
    by (rule appInvariant_snapshot [OF assms(1) assms(1)])
  have an: "annotations (snapshotHistory act s s) = annotations s" for act
    by (simp add: snapshotHistory_def)
  have vc: "appInvariant ((snapshotHistory act s s)\<lparr>annotations :=
            map (\<lambda>a. if ann_id a = selectedIds s ! 0 then ann\<lparr>points := P\<rparr> else a) (annotations s)\<rparr>)"
    for act P
    by (rule appInvariant_vertexChange [OF assms(1) Some an snap])
  have po: "appInvariant ((snapshotHistory act s s)\<lparr>annotations :=
            map (\<lambda>a. if ann_id a = selectedIds s ! 0 then a\<lparr>points := P\<rparr> else a) (annotations s)\<rparr>)"
    for act P
    by (rule appInvariant_rewrite [OF snap]) (simp_all only: an points_only_ids)
  show ?thesis
    using assms Some snap vc po
    by (auto simp add: vertexClick_def Let_def appInvariant_update
          split: if_splits option.splits ShapeType.splits)
qed

lemma appInvariant_handleMouseDown:
  assumes "appInvariant s" and "now \<notin> set (map ann_id (annotations s))"
      and "handleMouseDown rect now e s = Some s'"
  shows "appInvariant s'"
proof -
  have vc: "appInvariant s'" if "vertexClick p e s = Return (Some s')" for p
    using appInvariant_vertexClick [OF assms(1) that] .
  have snap: "appInvariant (snapshotHistory act s s)" for act
    by (rule appInvariant_snapshot [OF assms(1) assms(1)])
  show ?thesis
    using assms(1,3) vc snap
    by (auto simp add: handleMouseDown_def Let_def appInvariant_update
          appInvariant_bodyClick appInvariant_polygonClick [OF assms(1,2)]
          split: if_splits ToolType.splits flow.splits)
qed

lemma reachable_appInvariant:
  "reachable s \<Longrightarrow> appInvariant s"
proof (induction rule: reachable.induct)
  case initial
  show ?case by (rule appInvariant_initial)
next
  case (imageLoad s win img)
  show ?case by (rule appInvariant_handleImageLoad)
next
  case (setTool s t)
  then show ?case by (simp add: appInvariant_update)
next
  case (zoom s d)
  then show ?case by (simp add: appInvariant_update)
next
  case (resetView s win)
  then show ?case by (simp add: appInvariant_handleResetView)
next
  case (wheel s r we)
  then show ?case by (simp add: appInvariant_update)
next
  case (setKeyMap s km)
  then show ?case by (simp add: appInvariant_update)
next
  case (closePopup s)
  then show ?case by (simp add: appInvariant_update)
next
  case (undo s)
  then show ?case by (simp add: appInvariant_undo)
next
  case (redo s)
  then show ?case by (simp add: appInvariant_redo)
next
  case (appKey s win ke)
  then show ?case by (simp add: appInvariant_handleKeyDown_App)
next
  case (canvasKey s ke)
  then show ?case by (simp add: appInvariant_handleKeyDown)
next
  case (keyUp s ke)
  then show ?case by (simp add: appInvariant_handleKeyUp)
next
  case (mouseDown s now rect me s')
  then show ?case using appInvariant_handleMouseDown by blast
next
  case (mouseMove s rect me s')
  then show ?case using appInvariant_handleMouseMove by blast
next
  case (mouseUp s now)
  then show ?case using appInvariant_handleMouseUp by blast
next
  case (rowClick s ann ctrl meta)
  then show ?case using appInvariant_sidebarSelect by blast
next
  case (rowDelete s ann)
  then show ?case by (simp add: appInvariant_delete)
next
  case (rowEditLabel s ann r)
  then show ?case using appInvariant_handleEditLabel by blast
next
  case (toggleVisible s ident)
  then show ?case by (simp add: appInvariant_handleToggleVisible)
next
  case (toggleLock s ident)
  then show ?case by (simp add: appInvariant_handleToggleLock)
next
  case (labelSelect s col labelKey)
  then show ?case by (simp add: appInvariant_handleLabelSelect)
next
  case (align s atype)
  then show ?case by (simp add: appInvariant_handleAlign)
next
  case (distribute s dtype)
  then show ?case by (simp add: appInvariant_handleDistribute)
qed

lemma locked_not_selected:
  assumes "appInvariant s" and "a \<in> set (annotations s)" and "locked a"
  shows "ann_id a \<notin> set (selectedIds s)"
  using hasLocked_member [OF appInvariant_facts(1) [OF assms(1)] assms(2,3)]
        appInvariant_facts(2) [OF assms(1)]
  by blast

lemma handleKeyDown_nudge:
  assumes "\<not> target_is_input e" and "pendingPoly s = []" and "pendingRectStart s = None"
      and "selectedIds s \<noteq> []" and "activeVertex s = None"
      and "\<not> hasLocked (selectedIds s) (annotations s)"
  shows "annotations (handleKeyDown e s) =
     (let pressed = (\<lambda>k. isShortcutPressed e (keyMap s k));
          dx0 = (if pressed NUDGE_LEFT then - 1 else if pressed NUDGE_RIGHT then 1 else 0);
          dy0 = (if pressed NUDGE_LEFT then 0 else if pressed NUDGE_RIGHT then 0
                 else if pressed NUDGE_UP then - 1 else if pressed NUDGE_DOWN then 1 else 0);
          step = (if k_shiftKey e then 10 else 1)
      in if dx0 \<noteq> 0 \<or> dy0 \<noteq> 0
         then moveSelected (selectedIds s) (dx0 * step * (1 / scale (transform s)))
                (dy0 * step * (1 / scale (transform s))) (annotations s)
         else annotations s)"
  using assms
  by (simp add: handleKeyDown_def Let_def snapshotHistory_def)

lemma handleMouseMove_drag:
  assumes "currentTool s = select" and "\<not> isSpacePressed s" and "button e \<noteq> 1"
      and "isDragging s" and "dragStart s = Some d" and "selectedIds s \<noteq> []"
      and "activeVertex s = None" and "\<not> hasLocked (selectedIds s) (annotations s)"
  shows "map_option annotations (handleMouseMove rect e s) =
           Some (moveSelected (selectedIds s)
                   (px (getRelativeImagePos rect e s) - px d)
                   (py (getRelativeImagePos rect e s) - py d) (annotations s))"
  using assms
  by (simp add: handleMouseMove_def Let_def)

lemma handleDelete_keeps:
  "a \<in> set (annotations s) \<Longrightarrow> ann_id a \<notin> set ids \<Longrightarrow> a \<in> set (annotations (handleDelete ids c s))"
  by (simp add: handleDelete_def Let_def snapshotHistory_def)

lemma handleToggleLock_selectedIds:
  "selectedIds (handleToggleLock i s s) = filter (\<lambda>j. j \<noteq> i) (selectedIds s)"
proof (cases "i \<in> set (selectedIds s)")
  case True
  then show ?thesis by (simp add: handleToggleLock_def Let_def)
next
  case False
  then have "filter (\<lambda>j. j \<noteq> i) (selectedIds s) = selectedIds s"
    by (intro filter_True) auto
  then show ?thesis using False by (simp add: handleToggleLock_def Let_def)
qed

lemma handleToggleLock_annotations:
  "annotations (handleToggleLock i s s) =
     map (\<lambda>b. if ann_id b = i then b\<lparr>locked := \<not> locked b\<rparr> else b) (annotations s)"
  by (simp add: handleToggleLock_def Let_def)

subsection \<open>A reachable state with a locked annotation\<close>

lemma handleMouseUp_commit:
  assumes "currentTool s = rectangle_tool" and "pendingRectStart s = Some a"
      and "currentMouseImagePos s = Some b"
      and "1 < \<bar>px b - px a\<bar>" and "1 < \<bar>py b - py a\<bar>"
  shows "annotations (handleMouseUp now s) =
           annotations s @ [\<lparr>ann_id = now, label = ''defect'', shape_type = rectangle,
                              points = [a, b], color = getNextColor s, visible = True,
                              locked = False\<rparr>]"
    and "selectedIds (handleMouseUp now s) = [now]"
    and "isSpacePressed (handleMouseUp now s) = isSpacePressed s"
    and "\<not> isDragging (handleMouseUp now s)"
    and "activeVertex (handleMouseUp now s) = None"
    and "transform (handleMouseUp now s) = transform s"
    and "canvasPadding (handleMouseUp now s) = canvasPadding s"
    and "imageSize (handleMouseUp now s) = imageSize s"
    and "keyMap (handleMouseUp now s) = keyMap s"
    and "pendingPoly (handleMouseUp now s) = pendingPoly s"
    and "pendingRectStart (handleMouseUp now s) = None"
  using assms
  by (simp_all add: handleMouseUp_def Let_def handleShapeComplete_def)

lemma drawRectangle_ready:
  assumes "ready s"
      and "0 \<le> cx - 50" and "cx - 50 \<le> 900" and "0 \<le> cy - 50" and "cy - 50 \<le> 900"
      and "1 < \<bar>cx - ax\<bar>" and "1 < \<bar>cy - ay\<bar>"
  shows "\<exists>s'. drawRectangle now (click ax ay) (click cx cy) s = Some s' \<and> ready s' \<and>
              annotations s' =
                annotations s @ [\<lparr>ann_id = now, label = ''defect'', shape_type = rectangle,
                                   points = [\<lparr>px = ax - 50, py = ay - 50\<rparr>,
                                             \<lparr>px = cx - 50, py = cy - 50\<rparr>],
                                   color = getNextColor s, visible = True, locked = False\<rparr>] \<and>
              selectedIds s' = [now] \<and>
              (reachable s \<and> now \<notin> set (map ann_id (annotations s)) \<longrightarrow> reachable s')"
proof -
  define s0 where "s0 = s\<lparr>currentTool := rectangle_tool\<rparr>"
  have r0: "ready s0" "currentTool s0 = rectangle_tool" "annotations s0 = annotations s"
    using assms(1) by (simp_all add: s0_def ready_def)
  obtain s1 s2 where d: "handleMouseDown origin_rect now (click ax ay) s0 = Some s1"
    and m: "handleMouseMove origin_rect (click cx cy) s1 = Some s2"
    and e0: "rectangleDrag now (click ax ay) (click cx cy) s0 = Some (handleMouseUp now s2)"
    and n1: "annotations s1 = annotations s0"
    and t2: "currentTool s2 = rectangle_tool"
    and a2: "pendingRectStart s2 = Some \<lparr>px = ax - 50, py = ay - 50\<rparr>"
    and c0: "currentMouseImagePos s2 =
               Some \<lparr>px = max 0 (min (cx - 50) 900), py = max 0 (min (cy - 50) 900)\<rparr>"
    and r2: "annotations s2 = annotations s0" "\<not> isSpacePressed s2"
      "transform s2 = \<lparr>scale = 1, tx = 0, ty = 0\<rparr>" "canvasPadding s2 = \<lparr>px = 50, py = 50\<rparr>"
      "imageSize s2 = exampleImage" "keyMap s2 = DEFAULT_KEY_MAP" "pendingPoly s2 = []"
    using rectangleDrag_ready [OF r0(1,2), of now ax ay cx cy] by blast
  have c2: "currentMouseImagePos s2 = Some \<lparr>px = cx - 50, py = cy - 50\<rparr>"
    using assms(2,3,4,5) by (simp add: c0)
  have g: "getNextColor s2 = getNextColor s"
    by (simp add: getNextColor_def r2(1) r0(3))
  have ab: "1 < \<bar>px \<lparr>px = cx - 50, py = cy - 50\<rparr> - px \<lparr>px = ax - 50, py = ay - 50\<rparr>\<bar>"
           "1 < \<bar>py \<lparr>px = cx - 50, py = cy - 50\<rparr> - py \<lparr>px = ax - 50, py = ay - 50\<rparr>\<bar>"
    using assms(6,7) by simp_all
  note up = handleMouseUp_commit [OF t2 a2 c2 ab, of now]
  have e: "drawRectangle now (click ax ay) (click cx cy) s = Some (handleMouseUp now s2)"
    by (simp add: drawRectangle_def e0 flip: s0_def)
  have rd: "ready (handleMouseUp now s2)"
    unfolding ready_def by (simp add: up r2)
  have re: "reachable (handleMouseUp now s2)"
    if "reachable s" and "now \<notin> set (map ann_id (annotations s))"
  proof -
    have "reachable s0" unfolding s0_def using that(1) by (rule reachable.setTool)
    moreover have "now \<notin> set (map ann_id (annotations s0))" using that(2) by (simp add: r0)
    ultimately have "reachable s1" using d by (rule reachable.mouseDown)
    then have "reachable s2" using m by (rule reachable.mouseMove)
    moreover have "now \<notin> set (map ann_id (annotations s2))"
      using that(2) by (simp add: r2(1) r0(3))
    ultimately show ?thesis by (rule reachable.mouseUp)
  qed
  show ?thesis
    by (rule exI [of _ "handleMouseUp now s2"]) (simp add: e rd up(1,2) g r2(1) r0(3) re)
qed

lemma lockScene_reached:
  "\<exists>s. lockScene = Some s \<and> reachable s \<and> ready s \<and>
        annotations s = [rectA, lockedB] \<and> selectedIds s = [''1'']"
proof -
  obtain s1 where s1: "drawRectangle ''1'' (click 50 50) (click 60 60) loaded = Some s1" "ready s1"
      "annotations s1 = [rectA]" "reachable s1"
    using drawRectangle_ready [OF ready_loaded(1), of 60 60 50 50 "''1''"] ready_loaded(3)
    by (auto simp add: ready_loaded(2) getNextColor_def COLORS_def rectA_def)
  obtain s2 where s2: "drawRectangle ''2'' (click 70 55) (click 80 65) s1 = Some s2" "ready s2"
      "annotations s2 = [rectA, rectB]" "selectedIds s2 = [''2'']" "reachable s2"
    using drawRectangle_ready [OF s1(2), of 80 65 70 55 "''2''"] s1(4)
    by (auto simp add: s1(3) getNextColor_def COLORS_def rectA_def rectB_def)
  define s3 where "s3 = sidebarSelect rectA True False s2"
  have s3: "ready s3" "annotations s3 = [rectA, rectB]" "selectedIds s3 = [''2'', ''1'']"
    using s2(2) by (simp_all add: s3_def sidebarSelect_def ready_def s2(3,4) rectA_def)
  have r3: "reachable s3"
    unfolding s3_def by (rule reachable.rowClick [OF s2(5)]) (simp add: s2(3))
  define s4 where "s4 = handleToggleLock ''2'' s3 s3"
  have s4: "ready s4" "annotations s4 = [rectA, lockedB]" "selectedIds s4 = [''1'']"
    using s3(1)
    by (simp_all add: s4_def handleToggleLock_def Let_def ready_def s3(2,3) rectA_def rectB_def
          lockedB_def)
  have r4: "reachable s4"
    unfolding s4_def using r3 by (rule reachable.toggleLock)
  have "lockScene = Some s4"
    by (simp add: lockScene_def s1(1) s2(1) Let_def flip: s3_def s4_def)
  then show ?thesis
    using r4 s4 by blast
qed

text \<open>
  C2. In every reachable state no selected id is the id of a locked annotation: the
  canvas and the sidebar select unlocked annotations only, and \<open>handleToggleLock\<close>
  filters the id that it locks, and only this id, out of the selection. So, for a locked
  annotation \<open>a\<close> of a reachable state:

  \<^item> \<open>a\<close> is not selected, and the selection holds no locked member;
  \<^item> arrow-key nudge, pointer move (shape drag, rectangle resize, vertex drag), pointer
    down (vertex insertion and deletion), the global key handler (keyboard delete; the
    event is not the undo or redo shortcut) and the delete button of an unlocked row
    leave \<open>a\<close> in the collection as it is;
  \<^item> the lock guard of nudge, shape drag and keyboard delete is never taken: the nudge
    moves every selected member by the step of the key, the shape drag moves every
    selected member by the pointer's offset, and keyboard delete removes every selected
    member.
\<close>

theorem locked_untouched:
  assumes "reachable s" and "a \<in> set (annotations s)" and "locked a"
  shows "ann_id a \<notin> set (selectedIds s) \<and>
         \<not> hasLocked (selectedIds s) (annotations s) \<and>
         selectedIds (handleToggleLock i s s) = filter (\<lambda>j. j \<noteq> i) (selectedIds s) \<and>
         reachable (handleToggleLock i s s) \<and>
         a \<in> set (annotations (handleKeyDown ke s)) \<and>
         (\<forall>s'. handleMouseMove rect me s = Some s' \<longrightarrow> a \<in> set (annotations s')) \<and>
         (\<forall>s'. handleMouseDown rect now me s = Some s' \<longrightarrow> a \<in> set (annotations s')) \<and>
         (\<not> isShortcutPressed ke (keyMap s UNDO) \<and> \<not> isShortcutPressed ke (keyMap s REDO) \<longrightarrow>
            a \<in> set (annotations (handleKeyDown_App win ke s))) \<and>
         (\<forall>b\<in>set (annotations s). \<not> locked b \<longrightarrow>
            a \<in> set (annotations (handleDelete [ann_id b] s s))) \<and>
         (\<not> target_is_input ke \<and> pendingPoly s = [] \<and> pendingRectStart s = None \<and>
          selectedIds s \<noteq> [] \<and> activeVertex s = None \<longrightarrow>
            annotations (handleKeyDown ke s) =
              (let pressed = (\<lambda>k. isShortcutPressed ke (keyMap s k));
                   dx0 = (if pressed NUDGE_LEFT then - 1 else if pressed NUDGE_RIGHT then 1 else 0);
                   dy0 = (if pressed NUDGE_LEFT then 0 else if pressed NUDGE_RIGHT then 0
                          else if pressed NUDGE_UP then - 1 else if pressed NUDGE_DOWN then 1 else 0);
                   step = (if k_shiftKey ke then 10 else 1)
               in if dx0 \<noteq> 0 \<or> dy0 \<noteq> 0
                  then moveSelected (selectedIds s) (dx0 * step * (1 / scale (transform s)))
                         (dy0 * step * (1 / scale (transform s))) (annotations s)
                  else annotations s)) \<and>
         (currentTool s = select \<and> \<not> isSpacePressed s \<and> button me \<noteq> 1 \<and> isDragging s \<and>
          dragStart s = Some d \<and> selectedIds s \<noteq> [] \<and> activeVertex s = None \<longrightarrow>
            map_option annotations (handleMouseMove rect me s) =
              Some (moveSelected (selectedIds s)
                      (px (getRelativeImagePos rect me s) - px d)
                      (py (getRelativeImagePos rect me s) - py d) (annotations s))) \<and>
         (\<not> target_is_input ke \<and> \<not> isShortcutPressed ke (keyMap s UNDO) \<and>
          \<not> isShortcutPressed ke (keyMap s REDO) \<and> isShortcutPressed ke (keyMap s DELETE) \<and>
          selectedIds s \<noteq> [] \<longrightarrow>
            annotations (handleKeyDown_App win ke s) =
              filter (\<lambda>b. ann_id b \<notin> set (selectedIds s)) (annotations s))"
proof -
  have inv: "appInvariant s"
    using assms(1) by (rule reachable_appInvariant)
  note f = appInvariant_facts [OF inv]
  have ns: "ann_id a \<notin> set (selectedIds s)"
    using inv assms(2,3) by (rule locked_not_selected)
  have del: "a \<in> set (annotations (handleDelete [ann_id b] s s))"
    if "b \<in> set (annotations s)" and "\<not> locked b" for b
  proof -
    have "find (\<lambda>c. ann_id c = ann_id b) (annotations s) = Some b"
      using f(1) that(1) by (rule find_distinct_id)
    moreover have "find (\<lambda>c. ann_id c = ann_id a) (annotations s) = Some a"
      using f(1) assms(2) by (rule find_distinct_id)
    ultimately have "ann_id a \<noteq> ann_id b"
      using assms(3) that(2) by auto
    then show ?thesis
      using assms(2) by (simp add: handleDelete_keeps)
  qed
  show ?thesis
  proof (intro conjI allI impI ballI)
    show "ann_id a \<notin> set (selectedIds s)" by (rule ns)
    show "\<not> hasLocked (selectedIds s) (annotations s)" by (rule f(2))
    show "selectedIds (handleToggleLock i s s) = filter (\<lambda>j. j \<noteq> i) (selectedIds s)"
      by (rule handleToggleLock_selectedIds)
    show "reachable (handleToggleLock i s s)"
      using assms(1) by (rule reachable.toggleLock)
    show "a \<in> set (annotations (handleKeyDown ke s))"
      using assms(2,3) f(1) by (rule handleKeyDown_keeps)
    show "a \<in> set (annotations s')" if "handleMouseMove rect me s = Some s'" for s'
      using f(1) assms(2,3) that by (rule handleMouseMove_keeps)
    show "a \<in> set (annotations s')" if "handleMouseDown rect now me s = Some s'" for s'
      using f(1) assms(2,3) that by (rule handleMouseDown_keeps)
    show "a \<in> set (annotations (handleKeyDown_App win ke s))"
      if "\<not> isShortcutPressed ke (keyMap s UNDO) \<and> \<not> isShortcutPressed ke (keyMap s REDO)"
      using handleKeyDown_App_keeps [OF f(1) assms(2,3)] that by blast
    show "a \<in> set (annotations (handleDelete [ann_id b] s s))"
      if "b \<in> set (annotations s)" and "\<not> locked b" for b
      using that by (rule del)
    show "annotations (handleKeyDown ke s) =
              (let pressed = (\<lambda>k. isShortcutPressed ke (keyMap s k));
                   dx0 = (if pressed NUDGE_LEFT then - 1 else if pressed NUDGE_RIGHT then 1 else 0);
                   dy0 = (if pressed NUDGE_LEFT then 0 else if pressed NUDGE_RIGHT then 0
                          else if pressed NUDGE_UP then - 1 else if pressed NUDGE_DOWN then 1 else 0);
                   step = (if k_shiftKey ke then 10 else 1)
               in if dx0 \<noteq> 0 \<or> dy0 \<noteq> 0
                  then moveSelected (selectedIds s) (dx0 * step * (1 / scale (transform s)))
                         (dy0 * step * (1 / scale (transform s))) (annotations s)
                  else annotations s)"
      if "\<not> target_is_input ke \<and> pendingPoly s = [] \<and> pendingRectStart s = None \<and>
          selectedIds s \<noteq> [] \<and> activeVertex s = None"
      using that f(2) by (intro handleKeyDown_nudge) simp_all
    show "map_option annotations (handleMouseMove rect me s) =
              Some (moveSelected (selectedIds s)
                      (px (getRelativeImagePos rect me s) - px d)
                      (py (getRelativeImagePos rect me s) - py d) (annotations s))"
      if "currentTool s = select \<and> \<not> isSpacePressed s \<and> button me \<noteq> 1 \<and> isDragging s \<and>
          dragStart s = Some d \<and> selectedIds s \<noteq> [] \<and> activeVertex s = None"
      using that f(2) by (intro handleMouseMove_drag) simp_all
    show "annotations (handleKeyDown_App win ke s) =
              filter (\<lambda>b. ann_id b \<notin> set (selectedIds s)) (annotations s)"
      if "\<not> target_is_input ke \<and> \<not> isShortcutPressed ke (keyMap s UNDO) \<and>
          \<not> isShortcutPressed ke (keyMap s REDO) \<and> isShortcutPressed ke (keyMap s DELETE) \<and>
          selectedIds s \<noteq> []"
      using that f(2) by (simp add: handleKeyDown_App_annotations)
  qed
qed

text \<open>
  The example: the rectangles A and B are drawn on a loaded image, A is added to the
  selection with a control click on its row, and B is locked. B has left the selection;
  the nudge-left key then moves A by one image unit and the delete key removes A, and B
  stays as it is.
\<close>

theorem locked_untouched_witness:
  "\<exists>s. lockScene = Some s \<and> reachable s \<and>
        annotations s = [rectA, lockedB] \<and> selectedIds s = [''1''] \<and>
        lockedB \<in> set (annotations s) \<and> locked lockedB \<and> \<not> locked rectA \<and>
        ann_id lockedB \<notin> set (selectedIds s) \<and>
        \<not> hasLocked (selectedIds s) (annotations s) \<and>
        annotations (handleKeyDown (keyPress ''ArrowLeft'') s)
          = [moveAnnotation rectA (- 1) 0, lockedB] \<and>
        moveAnnotation rectA (- 1) 0 \<noteq> rectA \<and>
        annotations (handleKeyDown_App exampleWindow (keyPress ''Delete'') s) = [lockedB]"
proof -
  obtain s where s: "lockScene = Some s" "reachable s" "ready s"
      "annotations s = [rectA, lockedB]" "selectedIds s = [''1'']"
    using lockScene_reached by blast
  have m: "lockedB \<in> set (annotations s)" by (simp add: s(4))
  have l: "locked lockedB" "\<not> locked rectA" "ann_id rectA = ''1''" "ann_id lockedB = ''2''"
    by (simp_all add: lockedB_def rectB_def rectA_def)
  have k: "keyMap s = DEFAULT_KEY_MAP" "pendingPoly s = []" "pendingRectStart s = None"
    "activeVertex s = None" "transform s = \<lparr>scale = 1, tx = 0, ty = 0\<rparr>"
    using s(3) by (simp_all add: ready_def)
  have e: "\<not> target_is_input (keyPress k)" "\<not> k_shiftKey (keyPress k)" for k
    by (simp_all add: keyPress_def)
  have u: "\<not> isShortcutPressed (keyPress ''Delete'') (DEFAULT_KEY_MAP UNDO)"
          "\<not> isShortcutPressed (keyPress ''Delete'') (DEFAULT_KEY_MAP REDO)"
          "isShortcutPressed (keyPress ''Delete'') (DEFAULT_KEY_MAP DELETE)"
    by (simp_all add: pressed_delete)
  note t1 = locked_untouched [OF s(2) m l(1), of _ "keyPress ''ArrowLeft''"]
  note t2 = locked_untouched [OF s(2) m l(1), of _ "keyPress ''Delete''" _ _ _ exampleWindow]
  have n: "annotations (handleKeyDown (keyPress ''ArrowLeft'') s)
          = [moveAnnotation rectA (- 1) 0, lockedB]"
    using t1
    by (simp add: k e s(4,5) pressed_default Let_def moveSelected_def moveAnnotation_def l)
  have dl: "annotations (handleKeyDown_App exampleWindow (keyPress ''Delete'') s) = [lockedB]"
    using t2 by (simp add: k e u s(4,5) l)
  have mv: "moveAnnotation rectA (- 1) 0 \<noteq> rectA"
    by (simp add: moveAnnotation_def rectA_def)
  have ns: "ann_id lockedB \<notin> set (selectedIds s)" "\<not> hasLocked (selectedIds s) (annotations s)"
    using t1 by simp_all
  show ?thesis
    using s(1,2,4,5) m l(1,2) ns n mv dl by blast
qed

end
